theory Spec2Isabelle
  imports Main "HOL-Library.Multiset"
begin

section \<open>JavaScript values used by the clip service\<close>

text \<open>
  The time codes of \<^verbatim>\<open>src/services/youtubeService.js\<close> are JavaScript numbers
  obtained from text by \<^verbatim>\<open>Number\<close>. The model follows the numbers that seconds are
  made of: \<open>NaN\<close> and the safe integers, those of magnitude up to \<open>2^53 - 1\<close>, on which
  the arithmetic of doubles is exact. Where a text is read as another number (a fraction,
  an exponent, a radix prefix, an infinity, a larger integer, a negative zero) or a
  result leaves the safe integers, the model gives \<open>None\<close>: it says nothing about that
  input, and no theorem below speaks of it.
\<close>

datatype jsnum = NaN | Fin int

definition MAX_SAFE_INTEGER :: int where
  "MAX_SAFE_INTEGER = 9007199254740991"

definition safe_integer :: "int \<Rightarrow> bool" where
  "safe_integer n = (- MAX_SAFE_INTEGER \<le> n \<and> n \<le> MAX_SAFE_INTEGER)"

text \<open>\<^verbatim>\<open>a + b\<close>, \<^verbatim>\<open>a * b\<close> and \<^verbatim>\<open>a - b\<close>: \<open>NaN\<close> as soon as one side is.\<close>

definition num_add :: "jsnum \<Rightarrow> jsnum \<Rightarrow> jsnum option" where
  "num_add x y =
     (case (x, y) of
        (Fin a, Fin b) \<Rightarrow> if safe_integer (a + b) then Some (Fin (a + b)) else None
      | _ \<Rightarrow> Some NaN)"

definition num_mul :: "jsnum \<Rightarrow> jsnum \<Rightarrow> jsnum option" where
  "num_mul x y =
     (case (x, y) of
        (Fin a, Fin b) \<Rightarrow> if safe_integer (a * b) then Some (Fin (a * b)) else None
      | _ \<Rightarrow> Some NaN)"

definition num_sub :: "jsnum \<Rightarrow> jsnum \<Rightarrow> jsnum option" where
  "num_sub x y =
     (case (x, y) of
        (Fin a, Fin b) \<Rightarrow> if safe_integer (a - b) then Some (Fin (a - b)) else None
      | _ \<Rightarrow> Some NaN)"

text \<open>\<^verbatim>\<open>a < b\<close> on numbers: false as soon as one side is \<open>NaN\<close>.\<close>

fun num_lt :: "jsnum \<Rightarrow> jsnum \<Rightarrow> bool" where
  "num_lt (Fin a) (Fin b) = (a < b)"
| "num_lt _ _ = False"

text \<open>Truthiness of a number: \<open>0\<close> and \<open>NaN\<close> are falsy.\<close>

fun num_truthy :: "jsnum \<Rightarrow> bool" where
  "num_truthy (Fin a) = (a \<noteq> 0)"
| "num_truthy NaN = False"

subsection \<open>Decimal text\<close>

definition digit_char :: "nat \<Rightarrow> char" where
  "digit_char d = char_of (48 + d)"

definition isDigit :: "char \<Rightarrow> bool" where
  "isDigit c = (48 \<le> (of_char c :: nat) \<and> (of_char c :: nat) \<le> 57)"

definition digit_val :: "char \<Rightarrow> nat" where
  "digit_val c = of_char c - 48"

text \<open>\<^verbatim>\<open>n.toString()\<close> for a non-negative integer.\<close>

fun toString :: "nat \<Rightarrow> string" where
  "toString n = (if n < 10 then [digit_char n] else toString (n div 10) @ [digit_char (n mod 10)])"

declare toString.simps [simp del]

text \<open>\<^verbatim>\<open>s.padStart(2, '0')\<close>.\<close>

definition padStart2 :: "string \<Rightarrow> string" where
  "padStart2 s = replicate (2 - length s) (CHR ''0'') @ s"

definition decimal_value :: "string \<Rightarrow> nat" where
  "decimal_value s = foldl (\<lambda>a c. 10 * a + digit_val c) 0 s"

text \<open>
  A text is a list of characters with codes from 0 to 255. Among them the white space
  that \<^verbatim>\<open>Number\<close> drops around a literal is the tab, the line feed, the vertical tab,
  the form feed, the carriage return, the space and the no-break space.
\<close>

definition isWhiteSpace :: "char \<Rightarrow> bool" where
  "isWhiteSpace c = ((of_char c :: nat) \<in> {9, 10, 11, 12, 13, 32, 160})"

definition trim :: "string \<Rightarrow> string" where
  "trim s = rev (dropWhile isWhiteSpace (rev (dropWhile isWhiteSpace s)))"

definition unsigned_decimal :: "string \<Rightarrow> bool" where
  "unsigned_decimal s = (s \<noteq> [] \<and> list_all isDigit s)"

text \<open>
  The characters a numeric literal can be made of: digits, signs, the dot, the letters
  of hexadecimal digits and of exponents (\<^verbatim>\<open>a\<close> to \<^verbatim>\<open>f\<close>), of the radix prefixes
  (\<^verbatim>\<open>x\<close>, \<^verbatim>\<open>o\<close>, \<^verbatim>\<open>b\<close>) and of \<^verbatim>\<open>Infinity\<close>. A text with any other character is not
  a numeric literal.
\<close>

definition numeric_char :: "char \<Rightarrow> bool" where
  "numeric_char c =
     (isDigit c \<or> c \<in> set ''+-.abcdefABCDEFxXoOInity'')"

text \<open>
  \<^verbatim>\<open>Number(text)\<close>: white space around the literal is dropped; the empty text is
  \<open>0\<close>; a text with a character that no numeric literal has is \<open>NaN\<close>; a decimal
  integer with an optional sign is its value when that is a safe integer (and not a
  negative zero). Every other text is left to \<open>None\<close>.
\<close>

definition Number :: "string \<Rightarrow> jsnum option" where
  "Number s =
     (case trim s of
        [] \<Rightarrow> Some (Fin 0)
      | c # r \<Rightarrow>
          if \<not> list_all numeric_char (c # r) then Some NaN
          else if c = CHR ''-'' then
            (if unsigned_decimal r \<and> 0 < decimal_value r \<and> safe_integer (int (decimal_value r))
             then Some (Fin (- int (decimal_value r))) else None)
          else if c = CHR ''+'' then
            (if unsigned_decimal r \<and> safe_integer (int (decimal_value r))
             then Some (Fin (int (decimal_value r))) else None)
          else if unsigned_decimal (c # r) \<and> safe_integer (int (decimal_value (c # r)))
            then Some (Fin (int (decimal_value (c # r))))
          else None)"

text \<open>\<^verbatim>\<open>text.split(d)\<close> for a one-character separator: the empty text gives one empty part.\<close>

fun js_split :: "char \<Rightarrow> string \<Rightarrow> string list" where
  "js_split d [] = [[]]"
| "js_split d (c # cs) =
     (if c = d then [] # js_split d cs
      else (case js_split d cs of
              [] \<Rightarrow> [[c]]
            | p # ps \<Rightarrow> (c # p) # ps))"

section \<open>Time codes (\<^verbatim>\<open>src/services/youtubeService.js\<close>)\<close>

text \<open>
  \<^verbatim>\<open>timeToSeconds\<close>, lines 5 to 19: a falsy text and \<^verbatim>\<open>'0:00'\<close> are \<open>0\<close>; two
  parts are minutes and seconds, three parts hours, minutes and seconds, any other
  number of parts is \<open>0\<close>, whatever the parts are.
\<close>

definition timeToSeconds :: "string \<Rightarrow> jsnum option" where
  "timeToSeconds timeStr =
     (if timeStr = [] \<or> timeStr = ''0:00'' then Some (Fin 0)
      else
        let parts = map Number (js_split (CHR '':'') timeStr) in
        if length parts = 2 then
          Option.bind (parts ! 0) (\<lambda>p0. Option.bind (parts ! 1) (\<lambda>p1.
          Option.bind (num_mul p0 (Fin 60)) (\<lambda>m. num_add m p1)))
        else if length parts = 3 then
          Option.bind (parts ! 0) (\<lambda>p0. Option.bind (parts ! 1) (\<lambda>p1. Option.bind (parts ! 2) (\<lambda>p2.
          Option.bind (num_mul p0 (Fin 3600)) (\<lambda>h. Option.bind (num_mul p1 (Fin 60)) (\<lambda>m.
          Option.bind (num_add h m) (\<lambda>hm. num_add hm p2))))))
        else Some (Fin 0))"

text \<open>
  The duration formatting of \<^verbatim>\<open>extractVideoInfo\<close>, lines 55 to 63, for a total
  number of seconds: \<^verbatim>\<open>h:mm:ss\<close> when the hours are positive, \<^verbatim>\<open>m:ss\<close> otherwise.
\<close>

definition formatDuration :: "nat \<Rightarrow> string" where
  "formatDuration totalSeconds =
     (let hours = totalSeconds div 3600;
          minutes = (totalSeconds mod 3600) div 60;
          seconds = totalSeconds mod 60
      in if hours > 0 then
           toString hours @ '':'' @ padStart2 (toString minutes) @ '':'' @ padStart2 (toString seconds)
         else
           toString minutes @ '':'' @ padStart2 (toString seconds))"

text \<open>
  Lines 52 to 64 as a whole: the text stays empty when the provider reports no duration
  or a zero one (\<^verbatim>\<open>if (videoInfo.duration)\<close>).
\<close>

definition fullDuration :: "nat option \<Rightarrow> string" where
  "fullDuration d =
     (case d of
        None \<Rightarrow> ''''
      | Some totalSeconds \<Rightarrow> if totalSeconds \<noteq> 0 then formatDuration totalSeconds else '''')"

text \<open>
  The part of \<^verbatim>\<open>timeToSeconds\<close> after its first line, on its own: the guard for the
  literal \<^verbatim>\<open>0:00\<close> returns what this part returns on it.
\<close>

definition parse_parts :: "string \<Rightarrow> jsnum option" where
  "parse_parts timeStr =
     (let parts = map Number (js_split (CHR '':'') timeStr) in
        if length parts = 2 then
          Option.bind (parts ! 0) (\<lambda>p0. Option.bind (parts ! 1) (\<lambda>p1.
          Option.bind (num_mul p0 (Fin 60)) (\<lambda>m. num_add m p1)))
        else if length parts = 3 then
          Option.bind (parts ! 0) (\<lambda>p0. Option.bind (parts ! 1) (\<lambda>p1. Option.bind (parts ! 2) (\<lambda>p2.
          Option.bind (num_mul p0 (Fin 3600)) (\<lambda>h. Option.bind (num_mul p1 (Fin 60)) (\<lambda>m.
          Option.bind (num_add h m) (\<lambda>hm. num_add hm p2))))))
        else Some (Fin 0))"

text \<open>A number below 100 written with exactly two digits, as \<^verbatim>\<open>mm\<close> and \<^verbatim>\<open>ss\<close> are.\<close>

definition two_digits :: "nat \<Rightarrow> string" where
  "two_digits n = [digit_char (n div 10), digit_char (n mod 10)]"

section \<open>Video references (\<^verbatim>\<open>extractVideoId\<close>)\<close>

text \<open>
  \<^verbatim>\<open>extractVideoId\<close>, lines 22 to 26, matches the URL against a regular expression
  and keeps capture group 7 when it is 11 characters long. The expression is modelled as
  a syntax tree, and matching as the backtracking search of the language: alternatives
  in order, greedy repetition and option (the longer match is tried first), and the first
  complete match wins. The continuation \<open>k\<close> is the rest of the pattern.
\<close>

datatype rx =
    Lit char
  | AnyChar
  | WordChar
  | NoneOf "char list"
  | Seq rx rx
  | Alt rx rx
  | Star rx
  | Opt rx
  | Group nat rx
  | Empty

text \<open>The dot matches any character but a line terminator.\<close>

definition isLineTerminator :: "char \<Rightarrow> bool" where
  "isLineTerminator c = ((of_char c :: nat) \<in> {10, 13})"

text \<open>\<^verbatim>\<open>\w\<close>: letters, digits and the underscore.\<close>

definition isWordChar :: "char \<Rightarrow> bool" where
  "isWordChar c =
     (let n = (of_char c :: nat) in
      (65 \<le> n \<and> n \<le> 90) \<or> (97 \<le> n \<and> n \<le> 122) \<or> (48 \<le> n \<and> n \<le> 57) \<or> n = 95)"

type_synonym captures = "nat \<Rightarrow> string option"

function rx_match ::
  "rx \<Rightarrow> string \<Rightarrow> captures \<Rightarrow> (string \<Rightarrow> captures \<Rightarrow> captures option) \<Rightarrow> captures option" where
  "rx_match (Lit c) s cs k =
     (case s of [] \<Rightarrow> None | x # r \<Rightarrow> if x = c then k r cs else None)"
| "rx_match AnyChar s cs k =
     (case s of [] \<Rightarrow> None | x # r \<Rightarrow> if isLineTerminator x then None else k r cs)"
| "rx_match WordChar s cs k =
     (case s of [] \<Rightarrow> None | x # r \<Rightarrow> if isWordChar x then k r cs else None)"
| "rx_match (NoneOf xs) s cs k =
     (case s of [] \<Rightarrow> None | x # r \<Rightarrow> if x \<in> set xs then None else k r cs)"
| "rx_match (Seq a b) s cs k = rx_match a s cs (\<lambda>s' cs'. rx_match b s' cs' k)"
| "rx_match (Alt a b) s cs k =
     (case rx_match a s cs k of Some m \<Rightarrow> Some m | None \<Rightarrow> rx_match b s cs k)"
| "rx_match (Star a) s cs k =
     (case rx_match a s cs
             (\<lambda>s' cs'. if length s' < length s then rx_match (Star a) s' cs' k else None) of
        Some m \<Rightarrow> Some m
      | None \<Rightarrow> k s cs)"
| "rx_match (Opt a) s cs k =
     (case rx_match a s cs k of Some m \<Rightarrow> Some m | None \<Rightarrow> k s cs)"
| "rx_match (Group n a) s cs k =
     rx_match a s cs (\<lambda>s' cs'. k s' (cs'(n \<mapsto> take (length s - length s') s)))"
| "rx_match Empty s cs k = k s cs"
  by pat_completeness auto
termination
  by (relation "measures [\<lambda>(r, s, cs, k). size r, \<lambda>(r, s, cs, k). length s]") auto

fun lits :: "string \<Rightarrow> rx" where
  "lits [] = Empty"
| "lits (c # cs) = Seq (Lit c) (lits cs)"

text \<open>
  The pattern of line 23,
  \<^verbatim>\<open>/^.*((youtu.be\/)|(v\/)|(\/u\/\w\/)|(embed\/)|(watch\?))\??v?=?([^#&?]*).*/\<close>,
  with its groups numbered as the language numbers them. It starts with \<^verbatim>\<open>^\<close>, so
  a match can only begin at the first character of the URL.
\<close>

definition regExp :: rx where
  "regExp =
     Seq (Star AnyChar)
    (Seq (Group 1
       (Alt (Group 2 (Seq (lits ''youtu'') (Seq AnyChar (lits ''be/''))))
       (Alt (Group 3 (lits ''v/''))
       (Alt (Group 4 (Seq (lits ''/u/'') (Seq WordChar (Lit (CHR ''/'')))))
       (Alt (Group 5 (lits ''embed/''))
            (Group 6 (lits ''watch?'')))))))
    (Seq (Opt (Lit (CHR ''?'')))
    (Seq (Opt (Lit (CHR ''v'')))
    (Seq (Opt (Lit (CHR ''='')))
    (Seq (Group 7 (Star (NoneOf ''#&?'')))
         (Star AnyChar))))))"

text \<open>\<^verbatim>\<open>url.match(regExp)\<close>: the captures of the first match from the start, if any.\<close>

definition js_match :: "rx \<Rightarrow> string \<Rightarrow> captures option" where
  "js_match r s = rx_match r s (\<lambda>_. None) (\<lambda>_ cs. Some cs)"

definition extractVideoId :: "string \<Rightarrow> string option" where
  "extractVideoId url =
     (case js_match regExp url of
        None \<Rightarrow> None
      | Some m \<Rightarrow>
          (case m 7 of
             None \<Rightarrow> None
           | Some g \<Rightarrow> if length g = 11 then Some g else None))"

text \<open>
  The characters of a video identifier: letters, digits, the underscore and the hyphen.
\<close>

definition isIdChar :: "char \<Rightarrow> bool" where
  "isIdChar c = (isWordChar c \<or> c = CHR ''-'')"

text \<open>
  The pattern in three parts: the markers (group 1), the optional characters after the
  marker, and the capture of group 7. \<open>after_star\<close> is what has to match once the
  leading \<^verbatim>\<open>.*\<close> has taken its share.
\<close>

definition rx_markers :: rx where
  "rx_markers =
     Group 1
       (Alt (Group 2 (Seq (lits ''youtu'') (Seq AnyChar (lits ''be/''))))
       (Alt (Group 3 (lits ''v/''))
       (Alt (Group 4 (Seq (lits ''/u/'') (Seq WordChar (Lit (CHR ''/'')))))
       (Alt (Group 5 (lits ''embed/''))
            (Group 6 (lits ''watch?''))))))"

definition rx_capture :: rx where
  "rx_capture = Seq (Group 7 (Star (NoneOf ''#&?''))) (Star AnyChar)"

definition rx_tail :: rx where
  "rx_tail =
     Seq (Opt (Lit (CHR ''?'')))
    (Seq (Opt (Lit (CHR ''v'')))
    (Seq (Opt (Lit (CHR ''='')))
         rx_capture))"

definition after_star :: "string \<Rightarrow> captures \<Rightarrow> captures option" where
  "after_star s cs = rx_match (Seq rx_markers rx_tail) s cs (\<lambda>_ cs. Some cs)"

section \<open>Extraction of the clip media (\<^verbatim>\<open>extractVideoInfo\<close>)\<close>

text \<open>
  What the metadata provider (\<^verbatim>\<open>youtube-dl-exec\<close>) reports for a URL; the duration is
  in whole seconds.
\<close>

record videoInfo =
  vi_title :: string
  vi_duration :: "nat option"
  vi_thumbnail :: "string option"

text \<open>The record \<^verbatim>\<open>extractVideoInfo\<close> returns, lines 75 to 82.\<close>

record clipMedia =
  videoId :: string
  title :: string
  thumbnailUrl :: string
  duration :: string
  startTimeSeconds :: jsnum
  endTimeSeconds :: "jsnum option"

text \<open>
  Lines 66 to 73: the text of the trim span, computed when the end is truthy and the
  start is below it, empty otherwise. Always in the \<^verbatim>\<open>m:ss\<close> form.
\<close>

definition formatSpan :: "int \<Rightarrow> string" where
  "formatSpan durationSeconds =
     (let minutes = durationSeconds div 60;
          seconds = durationSeconds mod 60
      in toString (nat minutes) @ '':'' @ padStart2 (toString (nat seconds)))"

definition clipDuration :: "jsnum \<Rightarrow> jsnum option \<Rightarrow> string option" where
  "clipDuration startSecs endSecs =
     (case endSecs of
        None \<Rightarrow> Some ''''
      | Some e \<Rightarrow>
          if num_truthy e \<and> num_lt startSecs e then
            (case num_sub e startSecs of
               Some (Fin durationSeconds) \<Rightarrow> Some (formatSpan durationSeconds)
             | Some NaN \<Rightarrow> Some ''''
             | None \<Rightarrow> None)
          else Some '''')"


definition extraction_failed :: string where
  "extraction_failed =
     ''Failed to extract YouTube video information. Please check the URL and try again.''"

text \<open>
  \<^verbatim>\<open>extractVideoInfo\<close>, lines 29 to 87. The provider is a parameter: \<open>None\<close> is a call
  that throws. A time text that is not given (\<open>None\<close>) takes the default of the
  parameter list. Every failure inside the \<^verbatim>\<open>try\<close> is thrown again as the one message.
  The result is \<open>None\<close> where a time text or the span leaves the numbers of the model.
\<close>

definition extractVideoInfo ::
  "(string \<Rightarrow> videoInfo option) \<Rightarrow> string \<Rightarrow> string option \<Rightarrow> string option \<Rightarrow>
   (string + clipMedia) option" where
  "extractVideoInfo youtubeDl youtubeUrl startTimeArg endTimeArg =
     (let startTime = (case startTimeArg of None \<Rightarrow> ''0:00'' | Some t \<Rightarrow> t);
          endTime = (case endTimeArg of None \<Rightarrow> '''' | Some t \<Rightarrow> t)
      in case extractVideoId youtubeUrl of
           None \<Rightarrow> Some (Inl extraction_failed)
         | Some vid \<Rightarrow>
             (case youtubeDl youtubeUrl of
                None \<Rightarrow> Some (Inl extraction_failed)
              | Some info \<Rightarrow>
                  Option.bind (timeToSeconds startTime) (\<lambda>startSecs.
                  Option.bind (if endTime \<noteq> [] then map_option Some (timeToSeconds endTime)
                               else Some None) (\<lambda>endSecs.
                  Option.bind (clipDuration startSecs endSecs) (\<lambda>clipDur.
                  let dur = fullDuration (vi_duration info)
                  in Some (Inr \<lparr> videoId = vid,
                           title = vi_title info,
                           thumbnailUrl =
                             (case vi_thumbnail info of
                                None \<Rightarrow> ''https://img.youtube.com/vi/'' @ vid @ ''/hqdefault.jpg''
                              | Some t \<Rightarrow>
                                  if t \<noteq> [] then t
                                  else ''https://img.youtube.com/vi/'' @ vid @ ''/hqdefault.jpg''),
                           duration = (if clipDur \<noteq> [] then clipDur else dur),
                           startTimeSeconds = startSecs,
                           endTimeSeconds = endSecs \<rparr>))))))"

text \<open>
  Provider answers and a short link, for the worked examples below: a video of ten
  minutes, and one for which the provider reports a duration of zero seconds.
\<close>

definition sample_info :: videoInfo where
  "sample_info = \<lparr> vi_title = ''Sample'', vi_duration = Some 600, vi_thumbnail = None \<rparr>"

definition sample_youtubeDl :: "string \<Rightarrow> videoInfo option" where
  "sample_youtubeDl url = Some sample_info"



definition sample_url :: string where
  "sample_url = ''https://youtu.be/dQw4w9WgXcQ''"

section \<open>The stores (\<^verbatim>\<open>Clip\<close>, \<^verbatim>\<open>Comment\<close> and \<^verbatim>\<open>Like\<close> models)\<close>

text \<open>
  An \<^verbatim>\<open>ObjectId\<close> is a number here, and every id of a request is a well-formed one.
  A collection is the list of its documents in insertion order. The populated
  \<^verbatim>\<open>user\<close> sub-document of the responses is left as the user's id: the \<^verbatim>\<open>User\<close>
  model is not among the sources. The store is up: no call fails but a save that an
  index refuses.
\<close>

type_synonym oid = nat

datatype likeType = ClipLike | CommentLike

record Like =
  like_id :: oid
  like_user :: oid
  like_clip :: "oid option"
  like_comment :: "oid option"
  like_type :: likeType
  like_createdAt :: nat

record Comment =
  comment_id :: oid
  comment_user :: oid
  comment_clip :: oid
  comment_content :: string
  comment_createdAt :: nat

record Clip =
  clip_id :: oid
  clip_user :: oid
  clip_title :: string
  clip_description :: string
  clip_youtubeUrl :: string
  clip_youtubeVideoId :: string
  clip_thumbnailUrl :: string
  clip_duration :: string
  clip_startTimeSeconds :: jsnum
  clip_endTimeSeconds :: "jsnum option"
  clip_createdAt :: nat

text \<open>The database: the three collections and the source of fresh ids.\<close>

record db =
  Clips :: "Clip list"
  Comments :: "Comment list"
  Likes :: "Like list"
  next_oid :: oid

definition empty_db :: db where
  "empty_db = \<lparr> Clips = [], Comments = [], Likes = [], next_oid = 0 \<rparr>"

text \<open>
  The Mongoose calls the routes make: \<^verbatim>\<open>findOne\<close> and \<^verbatim>\<open>findById\<close> return the first
  document that matches, \<^verbatim>\<open>countDocuments\<close> counts the matches, \<^verbatim>\<open>deleteMany\<close> removes
  them all, and \<^verbatim>\<open>findByIdAndDelete\<close> removes the first document with the id.
\<close>

definition findOne :: "('a \<Rightarrow> bool) \<Rightarrow> 'a list \<Rightarrow> 'a option" where
  "findOne p xs = find p xs"

definition countDocuments :: "('a \<Rightarrow> bool) \<Rightarrow> 'a list \<Rightarrow> nat" where
  "countDocuments p xs = length (filter p xs)"

definition deleteMany :: "('a \<Rightarrow> bool) \<Rightarrow> 'a list \<Rightarrow> 'a list" where
  "deleteMany p xs = filter (\<lambda>x. \<not> p x) xs"

fun deleteFirst :: "('a \<Rightarrow> bool) \<Rightarrow> 'a list \<Rightarrow> 'a list" where
  "deleteFirst p [] = []"
| "deleteFirst p (x # xs) = (if p x then xs else x # deleteFirst p xs)"

text \<open>\<^verbatim>\<open>Clip.findById(id)\<close>; an id that is \<^verbatim>\<open>undefined\<close> (\<open>None\<close>) finds nothing.\<close>

definition Clip_findById :: "oid option \<Rightarrow> Clip list \<Rightarrow> Clip option" where
  "Clip_findById i cs =
     (case i of None \<Rightarrow> None | Some j \<Rightarrow> findOne (\<lambda>c. clip_id c = j) cs)"

text \<open>The filters of the routes.\<close>

definition clip_like_of :: "oid \<Rightarrow> oid \<Rightarrow> Like \<Rightarrow> bool" where
  "clip_like_of userId clipId l =
     (like_user l = userId \<and> like_clip l = Some clipId \<and> like_type l = ClipLike)"

definition clip_like_on :: "oid \<Rightarrow> Like \<Rightarrow> bool" where
  "clip_like_on clipId l = (like_clip l = Some clipId \<and> like_type l = ClipLike)"

definition comment_on :: "oid \<Rightarrow> Comment \<Rightarrow> bool" where
  "comment_on clipId c = (comment_clip c = clipId)"

text \<open>
  The two unique indexes of the Like schema (lines 82 and 83 of \<^verbatim>\<open>src/server.js\<close>): on
  \<^verbatim>\<open>(user, clip, type)\<close> and on \<^verbatim>\<open>(user, comment, type)\<close>, both sparse. A sparse
  compound index holds every document that has at least one of its fields, with a field
  that is missing keyed as null; \<^verbatim>\<open>user\<close> and \<^verbatim>\<open>type\<close> are required, so both indexes
  hold every Like. A save is refused when one of the two keys is already taken.
\<close>

definition LikeSchema_duplicate :: "Like list \<Rightarrow> Like \<Rightarrow> bool" where
  "LikeSchema_duplicate likes l =
     list_ex (\<lambda>l'. like_user l' = like_user l \<and> like_type l' = like_type l \<and>
                   (like_clip l' = like_clip l \<or> like_comment l' = like_comment l)) likes"

section \<open>The routes (\<^verbatim>\<open>src/routes/clips.js\<close>)\<close>

datatype failure =
    BadRequest string
  | Forbidden string
  | NotFound string
  | ServerError string

datatype js_error = ReferenceError | JsonWebTokenError

text \<open>
  The identifiers \<^verbatim>\<open>clips.js\<close> binds at its top level, lines 2 to 9. A name that is
  neither bound there nor a global of the runtime throws a \<^verbatim>\<open>ReferenceError\<close> when it
  is evaluated.
\<close>

definition clips_js_bindings :: "string list" where
  "clips_js_bindings =
     [''express'', ''router'', ''body'', ''validationResult'', ''auth'',
      ''Clip'', ''Comment'', ''Like'', ''youtubeService'']"

text \<open>
  \<^verbatim>\<open>jwt.verify(token, process.env.JWT_SECRET)\<close> followed by \<^verbatim>\<open>decoded.user.id\<close>, as
  evaluated inside \<^verbatim>\<open>clips.js\<close>. The identity verifier is the parameter \<open>verify\<close>: it
  gives the user id of a credential, or fails.
\<close>

definition jwt_verify :: "(string \<Rightarrow> oid option) \<Rightarrow> string option \<Rightarrow> js_error + oid" where
  "jwt_verify verify token =
     (if ''jwt'' \<in> set clips_js_bindings then
        (case token of
           None \<Rightarrow> Inl JsonWebTokenError
         | Some t \<Rightarrow> (case verify t of None \<Rightarrow> Inl JsonWebTokenError | Some u \<Rightarrow> Inr u))
      else Inl ReferenceError)"

text \<open>\<^verbatim>\<open>xs[i]\<close>: \<^verbatim>\<open>undefined\<close> out of range.\<close>

definition js_index :: "'a list \<Rightarrow> nat \<Rightarrow> 'a option" where
  "js_index xs i = (if i < length xs then Some (xs ! i) else None)"

text \<open>
  The block that computes \<^verbatim>\<open>isLiked\<close> for a clip, lines 91 to 109 and again 149 to
  167: without an \<^verbatim>\<open>Authorization\<close> header the value stays false; with one, whatever is
  thrown inside the \<^verbatim>\<open>try\<close> is caught and the value stays false.
\<close>

definition clipIsLiked :: "(string \<Rightarrow> oid option) \<Rightarrow> string option \<Rightarrow> Like list \<Rightarrow> oid \<Rightarrow> bool" where
  "clipIsLiked verify authorization likes clipId =
     (case authorization of
        None \<Rightarrow> False
      | Some h \<Rightarrow>
          if h = [] then False
          else
            (case jwt_verify verify (js_index (js_split (CHR '' '') h) 1) of
               Inl err \<Rightarrow> False
             | Inr userId \<Rightarrow>
                 (case findOne (clip_like_of userId clipId) likes of
                    None \<Rightarrow> False
                  | Some like \<Rightarrow> True)))"

record clipView =
  cv_clip :: Clip
  likesCount :: nat
  commentsCount :: nat
  isLiked :: bool

definition clipWithCounts :: "(string \<Rightarrow> oid option) \<Rightarrow> string option \<Rightarrow> db \<Rightarrow> Clip \<Rightarrow> clipView" where
  "clipWithCounts verify authorization d clip =
     \<lparr> cv_clip = clip,
       likesCount = countDocuments (clip_like_on (clip_id clip)) (Likes d),
       commentsCount = countDocuments (comment_on (clip_id clip)) (Comments d),
       isLiked = clipIsLiked verify authorization (Likes d) (clip_id clip) \<rparr>"

record feedPage =
  fp_clips :: "clipView list"
  fp_page :: nat
  fp_totalPages :: nat
  fp_totalClips :: nat
  fp_hasMore :: bool

text \<open>
  \<^verbatim>\<open>parseInt(q) || dflt\<close> for a query value that is absent or unreadable (\<open>None\<close>) or a
  number; negative page numbers and limits are left out of the model.
\<close>

definition query_number :: "nat option \<Rightarrow> nat \<Rightarrow> nat" where
  "query_number q dflt = (case q of None \<Rightarrow> dflt | Some n \<Rightarrow> if n = 0 then dflt else n)"

text \<open>
  \<^verbatim>\<open>GET /\<close>, lines 70 to 130: the page of clips, newest first, each with its counts
  and \<^verbatim>\<open>isLiked\<close>.
\<close>

definition getClips ::
  "(string \<Rightarrow> oid option) \<Rightarrow> string option \<Rightarrow> nat option \<Rightarrow> nat option \<Rightarrow> db \<Rightarrow> feedPage" where
  "getClips verify authorization pageQ limitQ d =
     (let page = query_number pageQ 1;
          limit = query_number limitQ 10;
          skip = (page - 1) * limit;
          clips = take limit (drop skip (sort_key (\<lambda>c. - int (clip_createdAt c)) (Clips d)));
          total = length (Clips d)
      in \<lparr> fp_clips = map (clipWithCounts verify authorization d) clips,
           fp_page = page,
           fp_totalPages = (total + limit - 1) div limit,
           fp_totalClips = total,
           fp_hasMore = (page * limit < total) \<rparr>)"

text \<open>
  \<^verbatim>\<open>GET /:id\<close>, lines 135 to 181. The route binds the id of the path to
  \<^verbatim>\<open>req.params.id\<close>; the handler looks the clip up by \<^verbatim>\<open>req.query.id\<close>, the value of
  the query string.
\<close>

definition getClip ::
  "(string \<Rightarrow> oid option) \<Rightarrow> string option \<Rightarrow> oid \<Rightarrow> oid option \<Rightarrow> db \<Rightarrow> failure + clipView" where
  "getClip verify authorization params_id query_id d =
     (case Clip_findById query_id (Clips d) of
        None \<Rightarrow> Inl (NotFound ''Clip not found'')
      | Some clip \<Rightarrow> Inr (clipWithCounts verify authorization d clip))"

record likeResponse =
  lr_message :: string
  lr_isLiked :: bool
  lr_likesCount :: nat

text \<open>
  \<^verbatim>\<open>POST /:id/like\<close>, lines 217 to 269, for the user the \<^verbatim>\<open>auth\<close> middleware let
  through. \<open>refused\<close> is the store's verdict on a save (its unique indexes); a refused
  save throws, and the handler answers 500.
\<close>

definition toggleLike ::
  "(Like list \<Rightarrow> Like \<Rightarrow> bool) \<Rightarrow> nat \<Rightarrow> oid \<Rightarrow> oid \<Rightarrow> db \<Rightarrow> (failure + likeResponse) \<times> db" where
  "toggleLike refused now userId clipId d =
     (case Clip_findById (Some clipId) (Clips d) of
        None \<Rightarrow> (Inl (NotFound ''Clip not found''), d)
      | Some clip \<Rightarrow>
          (case findOne (clip_like_of userId clipId) (Likes d) of
             Some existingLike \<Rightarrow>
               (let d' = d\<lparr> Likes := deleteFirst (\<lambda>l. like_id l = like_id existingLike) (Likes d) \<rparr>
                in (Inr \<lparr> lr_message = ''Clip unliked successfully'',
                          lr_isLiked = False,
                          lr_likesCount = countDocuments (clip_like_on clipId) (Likes d') \<rparr>, d'))
           | None \<Rightarrow>
               (let like = \<lparr> like_id = next_oid d, like_user = userId, like_clip = Some clipId,
                             like_comment = None, like_type = ClipLike, like_createdAt = now \<rparr>
                in if refused (Likes d) like then (Inl (ServerError ''Server error''), d)
                   else
                     (let d' = d\<lparr> Likes := Likes d @ [like], next_oid := Suc (next_oid d) \<rparr>
                      in (Inr \<lparr> lr_message = ''Clip liked successfully'',
                                lr_isLiked = True,
                                lr_likesCount = countDocuments (clip_like_on clipId) (Likes d') \<rparr>, d')))))"

text \<open>
  \<^verbatim>\<open>POST /:id/comments\<close>, lines 274 to 317: the content is trimmed and must have 1 to
  500 characters.
\<close>

definition addComment :: "nat \<Rightarrow> oid \<Rightarrow> oid \<Rightarrow> string \<Rightarrow> db \<Rightarrow> (failure + Comment) \<times> db" where
  "addComment now userId clipId content d =
     (let content' = trim content in
      if length content' < 1 \<or> 500 < length content' then
        (Inl (BadRequest ''Comment cannot be empty and must be less than 500 characters''), d)
      else
        (case Clip_findById (Some clipId) (Clips d) of
           None \<Rightarrow> (Inl (NotFound ''Clip not found''), d)
         | Some clip \<Rightarrow>
             (let comment = \<lparr> comment_id = next_oid d, comment_user = userId, comment_clip = clipId,
                              comment_content = content', comment_createdAt = now \<rparr>
              in (Inr comment,
                  d\<lparr> Comments := Comments d @ [comment], next_oid := Suc (next_oid d) \<rparr>))))"

text \<open>\<^verbatim>\<open>DELETE /:id\<close>, lines 375 to 400.\<close>

definition deleteClip :: "oid \<Rightarrow> oid \<Rightarrow> db \<Rightarrow> (failure + string) \<times> db" where
  "deleteClip userId clipId d =
     (case Clip_findById (Some clipId) (Clips d) of
        None \<Rightarrow> (Inl (NotFound ''Clip not found''), d)
      | Some clip \<Rightarrow>
          if clip_user clip \<noteq> userId then
            (Inl (Forbidden ''User not authorized to delete this clip''), d)
          else
            (let d1 = d\<lparr> Comments := deleteMany (comment_on clipId) (Comments d) \<rparr>;
                 d2 = d1\<lparr> Likes := deleteMany (clip_like_on clipId) (Likes d1) \<rparr>;
                 d3 = d2\<lparr> Clips := deleteFirst (\<lambda>c. clip_id c = clipId) (Clips d2) \<rparr>
             in (Inr ''Clip deleted successfully'', d3)))"

text \<open>
  \<^verbatim>\<open>clip.save()\<close> of \<^verbatim>\<open>POST /\<close>, line 48: the new document gets a fresh id. What the
  route puts into the document does not matter to the stores' invariants, so the document
  is a parameter here.
\<close>

definition saveClip :: "Clip \<Rightarrow> db \<Rightarrow> db" where
  "saveClip clip d =
     d\<lparr> Clips := Clips d @ [clip\<lparr> clip_id := next_oid d \<rparr>], next_oid := Suc (next_oid d) \<rparr>"

text \<open>The states the routes can bring the database to, starting from the empty one.\<close>

inductive reachable :: "(Like list \<Rightarrow> Like \<Rightarrow> bool) \<Rightarrow> db \<Rightarrow> bool"
  for refused :: "Like list \<Rightarrow> Like \<Rightarrow> bool" where
  reach_empty: "reachable refused empty_db"
| reach_save: "reachable refused d \<Longrightarrow> reachable refused (saveClip clip d)"
| reach_like: "reachable refused d \<Longrightarrow> reachable refused (snd (toggleLike refused now userId clipId d))"
| reach_comment: "reachable refused d \<Longrightarrow> reachable refused (snd (addComment now userId clipId content d))"
| reach_delete: "reachable refused d \<Longrightarrow> reachable refused (snd (deleteClip userId clipId d))"

text \<open>The key of a Like: who, on what, of which kind.\<close>

definition like_target :: "Like \<Rightarrow> oid option" where
  "like_target l = (case like_type l of ClipLike \<Rightarrow> like_clip l | CommentLike \<Rightarrow> like_comment l)"

definition like_key :: "Like \<Rightarrow> oid \<times> oid option \<times> likeType" where
  "like_key l = (like_user l, like_target l, like_type l)"

text \<open>What holds of the stores in every reachable state.\<close>

definition ids_fresh :: "db \<Rightarrow> bool" where
  "ids_fresh d =
     (list_all (\<lambda>c. clip_id c < next_oid d) (Clips d) \<and>
      list_all (\<lambda>l. like_id l < next_oid d) (Likes d) \<and>
      distinct (map clip_id (Clips d)) \<and>
      distinct (map like_id (Likes d)))"

definition likes_unique :: "db \<Rightarrow> bool" where
  "likes_unique d = distinct (map like_key (Likes d))"

text \<open>
  What the indexes of the Like schema add: every Like a route stores is of kind clip and
  has no \<^verbatim>\<open>comment\<close>, so the index on \<^verbatim>\<open>(user, comment, type)\<close> lets a user hold one
  Like at a time.
\<close>

definition one_like_per_user :: "db \<Rightarrow> bool" where
  "one_like_per_user d =
     (list_all (\<lambda>l. like_type l = ClipLike \<and> like_comment l = None) (Likes d) \<and>
      distinct (map like_user (Likes d)))"

text \<open>A small database for the worked examples: one clip of user 1, then liked by user 2.\<close>

definition sample_clip :: Clip where
  "sample_clip =
     \<lparr> clip_id = 0, clip_user = 1, clip_title = ''Sample'', clip_description = '''',
       clip_youtubeUrl = ''https://youtu.be/dQw4w9WgXcQ'', clip_youtubeVideoId = ''dQw4w9WgXcQ'',
       clip_thumbnailUrl = ''https://img.youtube.com/vi/dQw4w9WgXcQ/hqdefault.jpg'',
       clip_duration = ''10:00'', clip_startTimeSeconds = Fin 0, clip_endTimeSeconds = None,
       clip_createdAt = 1 \<rparr>"

definition sample_db :: db where
  "sample_db = saveClip sample_clip empty_db"

definition liked_db :: db where
  "liked_db = snd (toggleLike LikeSchema_duplicate 2 2 0 sample_db)"

text \<open>An identity verifier that knows one credential, the one of user 2.\<close>

definition sample_verify :: "string \<Rightarrow> oid option" where
  "sample_verify token = (if token = ''token-of-user-2'' then Some 2 else None)"

text \<open>A database of \<open>n\<close> clips, and one with a second clip beside the liked one.\<close>

definition many_clips :: "nat \<Rightarrow> db" where
  "many_clips n = (saveClip sample_clip ^^ n) empty_db"

definition two_clips_db :: db where
  "two_clips_db = saveClip sample_clip liked_db"

section \<open>Properties of the time codes\<close>

subsection \<open>Decimal text is read back\<close>

lemma num_add_Fin [simp]:
  "num_add (Fin a) (Fin b) = (if safe_integer (a + b) then Some (Fin (a + b)) else None)"
  by (simp add: num_add_def)

lemma num_mul_Fin [simp]:
  "num_mul (Fin a) (Fin b) = (if safe_integer (a * b) then Some (Fin (a * b)) else None)"
  by (simp add: num_mul_def)

lemma num_sub_Fin [simp]:
  "num_sub (Fin a) (Fin b) = (if safe_integer (a - b) then Some (Fin (a - b)) else None)"
  by (simp add: num_sub_def)

lemma safe_integer_between: "0 \<le> n \<Longrightarrow> n \<le> m \<Longrightarrow> safe_integer m \<Longrightarrow> safe_integer n"
  by (simp add: safe_integer_def MAX_SAFE_INTEGER_def)

lemma digit_val_digit_char: "d < 10 \<Longrightarrow> digit_val (digit_char d) = d"
  by (simp add: digit_val_def digit_char_def)

lemma isDigit_digit_char: "d < 10 \<Longrightarrow> isDigit (digit_char d)"
  by (simp add: isDigit_def digit_char_def)

lemma toString_digits: "list_all isDigit (toString n)"
  by (induction n rule: toString.induct) (subst toString.simps, simp add: isDigit_digit_char)

lemma toString_nonempty: "toString n \<noteq> []"
  by (subst toString.simps) simp

lemma decimal_value_snoc: "decimal_value (s @ [c]) = 10 * decimal_value s + digit_val c"
  by (simp add: decimal_value_def)

lemma decimal_value_toString: "decimal_value (toString n) = n"
proof (induction n rule: toString.induct)
  case (1 n)
  show ?case
  proof (cases "n < 10")
    case True
    then show ?thesis
      by (subst toString.simps) (simp add: decimal_value_def digit_val_digit_char)
  next
    case False
    with 1 show ?thesis
      by (subst toString.simps) (simp add: decimal_value_snoc digit_val_digit_char)
  qed
qed

lemma decimal_value_zero_Cons: "decimal_value (CHR ''0'' # s) = decimal_value s"
  by (simp add: decimal_value_def digit_val_def)

lemma isDigit_not_space: "isDigit c \<Longrightarrow> \<not> isWhiteSpace c"
  by (auto simp: isDigit_def isWhiteSpace_def)

lemma trim_digits: "s \<noteq> [] \<Longrightarrow> list_all isDigit s \<Longrightarrow> trim s = s"
proof -
  assume ne: "s \<noteq> []" and d: "list_all isDigit s"
  then obtain c r where s: "s = c # r" by (cases s) auto
  with d have "\<not> isWhiteSpace c" by (simp add: isDigit_not_space)
  then have a: "dropWhile isWhiteSpace s = s" using s by simp
  from ne d have "isDigit (last s)" by (simp add: list_all_iff)
  then have "\<not> isWhiteSpace (hd (rev s))" using ne by (simp add: hd_rev isDigit_not_space)
  then have "dropWhile isWhiteSpace (rev s) = rev s" using ne by (cases "rev s") auto
  with a show ?thesis by (simp add: trim_def)
qed

lemma Number_digits:
  assumes "s \<noteq> []" "list_all isDigit s" "safe_integer (int (decimal_value s))"
  shows "Number s = Some (Fin (int (decimal_value s)))"
proof -
  from assms obtain c r where s: "s = c # r" by (cases s) auto
  with assms have "isDigit c" by simp
  then have c: "c \<noteq> CHR ''-''" "c \<noteq> CHR ''+''" by (auto simp: isDigit_def)
  from assms(2) have "list_all numeric_char s"
    by (auto simp: list_all_iff numeric_char_def)
  with assms s c show ?thesis
    by (simp add: Number_def trim_digits unsigned_decimal_def)
qed

lemma Number_toString: "safe_integer (int n) \<Longrightarrow> Number (toString n) = Some (Fin (int n))"
  by (simp add: Number_digits toString_nonempty toString_digits decimal_value_toString)

lemma padStart2_digits: "list_all isDigit s \<Longrightarrow> list_all isDigit (padStart2 s)"
  by (auto simp: padStart2_def isDigit_def list_all_iff)

lemma decimal_value_replicate_zero:
  "decimal_value (replicate k (CHR ''0'') @ s) = decimal_value s"
  by (induction k) (simp_all add: decimal_value_zero_Cons)

lemma decimal_value_padStart2: "decimal_value (padStart2 (toString n)) = n"
  by (simp add: padStart2_def decimal_value_replicate_zero decimal_value_toString)

lemma Number_padStart2_toString:
  "safe_integer (int n) \<Longrightarrow> Number (padStart2 (toString n)) = Some (Fin (int n))"
proof -
  assume safe: "safe_integer (int n)"
  have "padStart2 (toString n) \<noteq> []"
    by (simp add: padStart2_def toString_nonempty)
  moreover have "list_all isDigit (padStart2 (toString n))"
    by (simp add: padStart2_digits toString_digits)
  moreover have "safe_integer (int (decimal_value (padStart2 (toString n))))"
    using safe by (simp add: decimal_value_padStart2)
  ultimately have "Number (padStart2 (toString n)) = Some (Fin (int (decimal_value (padStart2 (toString n)))))"
    by (rule Number_digits)
  then show ?thesis
    by (simp add: decimal_value_padStart2)
qed

lemma js_split_no_sep: "d \<notin> set s \<Longrightarrow> js_split d s = [s]"
  by (induction s) auto

lemma js_split_append:
  "d \<notin> set a \<Longrightarrow> js_split d (a @ d # b) = a # js_split d b"
  by (induction a) auto

lemma digits_no_colon: "list_all isDigit s \<Longrightarrow> CHR '':'' \<notin> set s"
  by (auto simp: list_all_iff isDigit_def)

lemma split_two:
  "list_all isDigit a \<Longrightarrow> list_all isDigit b \<Longrightarrow>
   js_split (CHR '':'') (a @ CHR '':'' # b) = [a, b]"
  by (simp add: js_split_append js_split_no_sep digits_no_colon)

lemma split_three:
  "list_all isDigit a \<Longrightarrow> list_all isDigit b \<Longrightarrow> list_all isDigit c \<Longrightarrow>
   js_split (CHR '':'') (a @ CHR '':'' # b @ CHR '':'' # c) = [a, b, c]"
  by (simp add: js_split_append js_split_no_sep digits_no_colon)

lemma parse_parts_zero: "parse_parts ''0:00'' = Some (Fin 0)"
  by code_simp

lemma timeToSeconds_parse_parts:
  "timeStr \<noteq> [] \<Longrightarrow> timeToSeconds timeStr = parse_parts timeStr"
  using parse_parts_zero by (auto simp: timeToSeconds_def parse_parts_def Let_def)

lemma hms_decompose:
  "(s::nat) div 3600 * 3600 + s mod 3600 div 60 * 60 + s mod 60 = s"
proof -
  have "s mod 3600 mod 60 = s mod 60"
    by (simp add: mod_mod_cancel)
  then have "s mod 3600 div 60 * 60 + s mod 60 = s mod 3600"
    by (metis div_mult_mod_eq)
  then show ?thesis
    by (metis add.assoc div_mult_mod_eq)
qed

lemma formatDuration_nonempty: "formatDuration s \<noteq> []"
  by (simp add: formatDuration_def Let_def toString_nonempty)

lemma safe_parts:
  assumes "safe_integer (int s)"
  shows "safe_integer (int (s div 3600))" "safe_integer (int (s mod 3600 div 60))"
    "safe_integer (int (s mod 60))" "safe_integer (int (s div 3600) * 3600)"
    "safe_integer (int (s mod 3600 div 60) * 60)"
    "safe_integer (int (s div 3600) * 3600 + int (s mod 3600 div 60) * 60)"
    "safe_integer (int (s div 3600) * 3600 + int (s mod 3600 div 60) * 60 + int (s mod 60))"
proof -
  have d: "int (s div 3600) * 3600 + int (s mod 3600 div 60) * 60 + int (s mod 60) = int s"
    using arg_cong [OF hms_decompose [of s], of int] by simp
  have nn: "0 \<le> int (s div 3600)" "0 \<le> int (s mod 3600 div 60)" "0 \<le> int (s mod 60)"
    by simp_all
  show "safe_integer (int (s div 3600))" "safe_integer (int (s mod 3600 div 60))"
    "safe_integer (int (s mod 60))" "safe_integer (int (s div 3600) * 3600)"
    "safe_integer (int (s mod 3600 div 60) * 60)"
    "safe_integer (int (s div 3600) * 3600 + int (s mod 3600 div 60) * 60)"
    "safe_integer (int (s div 3600) * 3600 + int (s mod 3600 div 60) * 60 + int (s mod 60))"
    using assms d nn unfolding safe_integer_def MAX_SAFE_INTEGER_def by linarith+
qed

lemma hms_value:
  assumes "safe_integer (int s)"
  shows "Option.bind (num_mul (Fin (int (s div 3600))) (Fin 3600)) (\<lambda>h.
         Option.bind (num_mul (Fin (int (s mod 3600 div 60))) (Fin 60)) (\<lambda>m.
         Option.bind (num_add h m) (\<lambda>hm. num_add hm (Fin (int (s mod 60)))))) = Some (Fin (int s))"
proof -
  note p = safe_parts [OF assms]
  have d: "int (s div 3600) * 3600 + int (s mod 3600 div 60) * 60 + int (s mod 60) = int s"
    using arg_cong [OF hms_decompose [of s], of int] by simp
  have a: "num_mul (Fin (int (s div 3600))) (Fin 3600) = Some (Fin (int (s div 3600) * 3600))"
    using p(4) by (simp only: num_mul_Fin if_True)
  have b: "num_mul (Fin (int (s mod 3600 div 60))) (Fin 60) = Some (Fin (int (s mod 3600 div 60) * 60))"
    using p(5) by (simp only: num_mul_Fin if_True)
  have c: "num_add (Fin (int (s div 3600) * 3600)) (Fin (int (s mod 3600 div 60) * 60)) =
           Some (Fin (int (s div 3600) * 3600 + int (s mod 3600 div 60) * 60))"
    using p(6) by (simp only: num_add_Fin if_True)
  have e: "num_add (Fin (int (s div 3600) * 3600 + int (s mod 3600 div 60) * 60)) (Fin (int (s mod 60))) =
           Some (Fin (int s))"
    using p(7) by (simp only: num_add_Fin if_True d)
  show ?thesis
    by (simp only: a b c e Option.bind.simps)
qed

lemma ms_value:
  assumes "safe_integer (int s)" and "s < 3600"
  shows "Option.bind (num_mul (Fin (int (s mod 3600 div 60))) (Fin 60)) (\<lambda>m.
           num_add m (Fin (int (s mod 60)))) = Some (Fin (int s))"
proof -
  note p = safe_parts [OF assms(1)]
  from assms(2) have z: "s div 3600 = 0" by simp
  have d: "int (s mod 3600 div 60) * 60 + int (s mod 60) = int s"
    using assms(2) by (simp add: of_nat_div of_nat_mod)
  have b: "num_mul (Fin (int (s mod 3600 div 60))) (Fin 60) = Some (Fin (int (s mod 3600 div 60) * 60))"
    using p(5) by (simp only: num_mul_Fin if_True)
  have "safe_integer (int (s mod 3600 div 60) * 60 + int (s mod 60))"
    using assms(1) by (simp only: d)
  then have e: "num_add (Fin (int (s mod 3600 div 60) * 60)) (Fin (int (s mod 60))) = Some (Fin (int s))"
    by (simp only: num_add_Fin if_True d)
  show ?thesis
    by (simp only: b e Option.bind.simps)
qed

lemma parse_parts_formatDuration:
  assumes safe: "safe_integer (int s)"
  shows "parse_parts (formatDuration s) = Some (Fin (int s))"
proof (cases "s div 3600 > 0")
  case True
  note p = safe_parts [OF safe]
  have sp: "js_split (CHR '':'') (formatDuration s) =
        [toString (s div 3600), padStart2 (toString (s mod 3600 div 60)), padStart2 (toString (s mod 60))]"
    using True by (simp add: formatDuration_def Let_def split_three toString_digits padStart2_digits)
  have "parse_parts (formatDuration s) =
     Option.bind (num_mul (Fin (int (s div 3600))) (Fin 3600)) (\<lambda>h.
         Option.bind (num_mul (Fin (int (s mod 3600 div 60))) (Fin 60)) (\<lambda>m.
         Option.bind (num_add h m) (\<lambda>hm. num_add hm (Fin (int (s mod 60))))))"
    unfolding parse_parts_def sp
    by (simp add: Number_toString [OF p(1)] Number_padStart2_toString [OF p(2)]
        Number_padStart2_toString [OF p(3)] del: num_mul_Fin num_add_Fin)
  then show ?thesis
    by (simp only: hms_value [OF safe])
next
  case False
  then have lt: "s < 3600" by simp
  note p = safe_parts [OF safe]
  have sp: "js_split (CHR '':'') (formatDuration s) =
        [toString (s mod 3600 div 60), padStart2 (toString (s mod 60))]"
    using False by (simp add: formatDuration_def Let_def split_two toString_digits padStart2_digits)
  have "parse_parts (formatDuration s) =
     Option.bind (num_mul (Fin (int (s mod 3600 div 60))) (Fin 60)) (\<lambda>m.
           num_add m (Fin (int (s mod 60))))"
    unfolding parse_parts_def sp
    by (simp add: Number_toString [OF p(2)] Number_padStart2_toString [OF p(3)]
        del: num_mul_Fin num_add_Fin)
  then show ?thesis
    by (simp only: ms_value [OF safe lt])
qed

lemma timeToSeconds_formatDuration:
  "safe_integer (int s) \<Longrightarrow> timeToSeconds (formatDuration s) = Some (Fin (int s))"
  by (simp add: timeToSeconds_parse_parts formatDuration_nonempty parse_parts_formatDuration)

lemma timeToSeconds_fullDuration:
  "safe_integer (int s) \<Longrightarrow> timeToSeconds (fullDuration (Some s)) = Some (Fin (int s))"
  by (simp add: fullDuration_def timeToSeconds_formatDuration) (simp add: timeToSeconds_def)

lemma padStart2_toString: "n < 100 \<Longrightarrow> padStart2 (toString n) = two_digits n"
proof (cases "n < 10")
  case True
  have "replicate (Suc 0) (CHR ''0'') = [digit_char 0]"
    by code_simp
  with True show ?thesis
    by (subst toString.simps) (simp add: padStart2_def two_digits_def)
next
  case False
  assume "n < 100"
  with False have "n div 10 < 10" by simp
  then have "toString (n div 10) = [digit_char (n div 10)]"
    by (subst toString.simps) simp
  with False show ?thesis
    by (subst toString.simps) (simp add: padStart2_def two_digits_def)
qed

lemma formatDuration_shape:
  "formatDuration s =
     (if 0 < s div 3600 then
        toString (s div 3600) @ '':'' @ two_digits (s mod 3600 div 60) @ '':'' @ two_digits (s mod 60)
      else toString (s div 60) @ '':'' @ two_digits (s mod 60))"
  by (simp add: formatDuration_def Let_def padStart2_toString)

lemma safe_integer_359999: "s \<le> 359999 \<Longrightarrow> safe_integer (int s)"
  by (simp add: safe_integer_def MAX_SAFE_INTEGER_def)

text \<open>
  Claim C8. For every whole number of seconds \<open>s\<close> from \<open>0\<close> to \<open>359999\<close>, reading
  the text of the duration formatter with \<^verbatim>\<open>timeToSeconds\<close> gives \<open>s\<close> back. The text is
  \<^verbatim>\<open>h:mm:ss\<close> when the hours are positive and \<^verbatim>\<open>m:ss\<close> otherwise, minutes (in the
  first form) and seconds with exactly two digits. The formatting block with its guard,
  which leaves the text empty at \<open>0\<close>, is read back as well.
\<close>

theorem timeToSeconds_format_roundtrip:
  "s \<le> 359999 \<Longrightarrow>
     timeToSeconds (formatDuration s) = Some (Fin (int s)) \<and>
     timeToSeconds (fullDuration (Some s)) = Some (Fin (int s)) \<and>
     formatDuration s =
       (if 0 < s div 3600 then
          toString (s div 3600) @ '':'' @ two_digits (s mod 3600 div 60) @ '':'' @ two_digits (s mod 60)
        else toString (s div 60) @ '':'' @ two_digits (s mod 60))"
  by (intro conjI)
     (rule timeToSeconds_formatDuration, erule safe_integer_359999,
      rule timeToSeconds_fullDuration, erule safe_integer_359999,
      rule formatDuration_shape)

theorem timeToSeconds_format_roundtrip_witness:
  "(3723::nat) \<le> 359999 \<and>
   formatDuration 3723 = ''1:02:03'' \<and>
   timeToSeconds (formatDuration 3723) = Some (Fin 3723) \<and>
   timeToSeconds (fullDuration (Some 3723)) = Some (Fin 3723)"
proof -
  have f: "formatDuration 3723 = ''1:02:03''"
    by code_simp
  have a: "timeToSeconds (formatDuration 3723) = Some (Fin 3723)"
    using timeToSeconds_format_roundtrip [of 3723, THEN conjunct1] by simp
  have b: "timeToSeconds (fullDuration (Some 3723)) = Some (Fin 3723)"
    using timeToSeconds_format_roundtrip [of 3723, THEN conjunct2, THEN conjunct1] by simp
  from f a b show ?thesis by simp
qed

section \<open>Properties of the stores and the routes\<close>

lemma findOne_None_iff: "findOne p xs = None \<longleftrightarrow> filter p xs = []"
  by (auto simp: findOne_def find_None_iff filter_empty_conv)

lemma findOne_SomeD: "findOne p xs = Some x \<Longrightarrow> p x \<and> x \<in> set xs"
  by (auto simp: findOne_def find_Some_iff)

lemma findOne_append_new:
  "findOne p xs = None \<Longrightarrow> p x \<Longrightarrow> findOne p (xs @ [x]) = Some x"
  by (induction xs) (auto simp: findOne_def split: if_splits)

lemma deleteFirst_append_new:
  "list_all (\<lambda>x. \<not> p x) xs \<Longrightarrow> p x \<Longrightarrow> deleteFirst p (xs @ [x]) = xs"
  by (induction xs) auto

lemma deleteFirst_by_id:
  "distinct (map f xs) \<Longrightarrow> x \<in> set xs \<Longrightarrow> deleteFirst (\<lambda>y. f y = f x) xs = remove1 x xs"
  by (induction xs) (auto simp: image_iff)

lemma set_deleteFirst_subset: "set (deleteFirst p xs) \<subseteq> set xs"
  by (induction xs) auto

lemma deleteFirst_distinct_map: "distinct (map f xs) \<Longrightarrow> distinct (map f (deleteFirst p xs))"
proof (induction xs)
  case Nil
  then show ?case by simp
next
  case (Cons x xs)
  then show ?case
    using set_deleteFirst_subset [of p xs] by auto
qed

lemma deleteFirst_by_id_absent:
  "distinct (map f xs) \<Longrightarrow> filter (\<lambda>y. f y = i) (deleteFirst (\<lambda>y. f y = i) xs) = []"
  by (induction xs) (auto simp: filter_empty_conv image_iff)

lemma list_all_deleteFirst: "list_all q xs \<Longrightarrow> list_all q (deleteFirst p xs)"
  by (induction xs) auto

text \<open>Documents with one key: at most one of them when the keys are distinct.\<close>

lemma distinct_key_filter_le1:
  assumes "distinct (map f xs)" and "\<And>x. x \<in> set xs \<Longrightarrow> p x \<Longrightarrow> f x = k"
  shows "length (filter p xs) \<le> 1"
  using assms
proof (induction xs)
  case Nil
  then show ?case by simp
next
  case (Cons x xs)
  show ?case
  proof (cases "p x")
    case True
    have "filter p xs = []"
    proof (rule ccontr)
      assume "filter p xs \<noteq> []"
      then obtain y where y: "y \<in> set xs" "p y"
        by (auto simp: filter_empty_conv)
      then have "f y = k" using Cons.prems(2) by simp
      moreover have "f x = k" using True Cons.prems(2) by simp
      ultimately show False using Cons.prems(1) y(1) by force
    qed
    with True show ?thesis by simp
  next
    case False
    with Cons show ?thesis by simp
  qed
qed

lemma clip_like_of_key: "clip_like_of u c l \<Longrightarrow> like_key l = (u, Some c, ClipLike)"
  by (simp add: clip_like_of_def like_key_def like_target_def)

lemma clip_like_of_on: "clip_like_of u c l \<Longrightarrow> clip_like_on c l"
  by (simp add: clip_like_of_def clip_like_on_def)

subsection \<open>Invariants of the reachable states\<close>

lemma ids_fresh_empty: "ids_fresh empty_db"
  by (simp add: ids_fresh_def empty_db_def)

lemma list_all_less_Suc: "list_all (\<lambda>x. f x < n) xs \<Longrightarrow> list_all (\<lambda>x. f x < Suc n) xs"
  by (induction xs) auto

lemma fresh_not_in_ids: "list_all (\<lambda>x. f x < n) xs \<Longrightarrow> (n::nat) \<notin> f ` set xs"
  by (auto simp: list_all_iff)

lemma ids_fresh_saveClip: "ids_fresh d \<Longrightarrow> ids_fresh (saveClip clip d)"
  by (auto simp: ids_fresh_def saveClip_def list_all_less_Suc dest: fresh_not_in_ids)

lemma ids_fresh_toggleLike: "ids_fresh d \<Longrightarrow> ids_fresh (snd (toggleLike refused now u c d))"
  by (auto simp: ids_fresh_def toggleLike_def Let_def list_all_less_Suc list_all_deleteFirst
      deleteFirst_distinct_map dest: fresh_not_in_ids split: option.splits)

lemma ids_fresh_addComment: "ids_fresh d \<Longrightarrow> ids_fresh (snd (addComment now u c content d))"
  by (auto simp: ids_fresh_def addComment_def Let_def list_all_less_Suc split: option.splits)

lemma list_all_filter: "list_all q xs \<Longrightarrow> list_all q (filter p xs)"
  by (induction xs) auto

lemma ids_fresh_deleteClip: "ids_fresh d \<Longrightarrow> ids_fresh (snd (deleteClip u c d))"
  by (auto simp: ids_fresh_def deleteClip_def Let_def deleteMany_def list_all_filter
      list_all_deleteFirst deleteFirst_distinct_map distinct_map_filter split: option.splits)

lemma reachable_ids_fresh: "reachable refused d \<Longrightarrow> ids_fresh d"
  by (induction rule: reachable.induct)
     (simp_all add: ids_fresh_empty ids_fresh_saveClip ids_fresh_toggleLike ids_fresh_addComment
        ids_fresh_deleteClip)

lemma likes_unique_toggleLike:
  assumes "likes_unique d"
  shows "likes_unique (snd (toggleLike refused now u c d))"
proof (cases "Clip_findById (Some c) (Clips d)")
  case None
  with assms show ?thesis by (simp add: toggleLike_def)
next
  case (Some clip)
  show ?thesis
  proof (cases "findOne (clip_like_of u c) (Likes d)")
    case (Some e)
    with \<open>Clip_findById (Some c) (Clips d) = Some clip\<close> assms show ?thesis
      by (simp add: toggleLike_def Let_def likes_unique_def deleteFirst_distinct_map)
  next
    case None
    let ?like = "\<lparr> like_id = next_oid d, like_user = u, like_clip = Some c,
                    like_comment = None, like_type = ClipLike, like_createdAt = now \<rparr>"
    have new: "like_key ?like \<notin> like_key ` set (Likes d)"
    proof
      assume "like_key ?like \<in> like_key ` set (Likes d)"
      then obtain l where l: "l \<in> set (Likes d)" "like_key l = like_key ?like"
        by auto
      then have "clip_like_of u c l"
        by (auto simp: like_key_def like_target_def clip_like_of_def split: likeType.splits)
      with l(1) have "filter (clip_like_of u c) (Likes d) \<noteq> []"
        by (auto simp: filter_empty_conv)
      with None show False by (simp add: findOne_None_iff)
    qed
    with None \<open>Clip_findById (Some c) (Clips d) = Some clip\<close> assms show ?thesis
      by (simp add: toggleLike_def Let_def likes_unique_def)
  qed
qed

lemma likes_unique_deleteClip: "likes_unique d \<Longrightarrow> likes_unique (snd (deleteClip u c d))"
  by (auto simp: likes_unique_def deleteClip_def Let_def deleteMany_def distinct_map_filter
      split: option.splits)

lemma likes_unique_addComment: "likes_unique d \<Longrightarrow> likes_unique (snd (addComment now u c content d))"
  by (auto simp: likes_unique_def addComment_def Let_def split: option.splits)

lemma reachable_likes_unique: "reachable refused d \<Longrightarrow> likes_unique d"
  by (induction rule: reachable.induct)
     (simp_all add: likes_unique_toggleLike likes_unique_deleteClip likes_unique_addComment,
      simp_all add: likes_unique_def empty_db_def saveClip_def)


subsection \<open>Toggling a like twice\<close>

lemma filter_remove1_count:
  "x \<in> set xs \<Longrightarrow> p x \<Longrightarrow> Suc (length (filter p (remove1 x xs))) = length (filter p xs)"
  by (induction xs) auto

lemma mset_map_remove1:
  "x \<in> set xs \<Longrightarrow> mset (map f (remove1 x xs)) + {#f x#} = mset (map f xs)"
  by (induction xs) auto

lemma findOne_remove1_unique:
  assumes "distinct (map f xs)" and "x \<in> set xs" and "\<And>y. p y \<Longrightarrow> f y = k" and "p x"
  shows "findOne p (remove1 x xs) = None"
proof -
  have "\<not> p y" if "y \<in> set (remove1 x xs)" for y
  proof
    assume "p y"
    then have "f y = f x" using assms(3,4) by simp
    moreover from assms(1) have dx: "distinct xs" by (simp add: distinct_map)
    with that have "y \<in> set xs" "y \<noteq> x" by auto
    ultimately show False
      using assms(1,2) by (auto simp: distinct_map inj_on_def)
  qed
  then show ?thesis
    by (auto simp: findOne_None_iff filter_empty_conv)
qed

lemma toggleLike_like:
  assumes "Clip_findById (Some clipId) (Clips d) = Some clip"
    and "findOne (clip_like_of userId clipId) (Likes d) = None"
    and "toggleLike refused now userId clipId d = (Inr r, d')"
  shows "d' = d\<lparr> Likes := Likes d @
                  [\<lparr> like_id = next_oid d, like_user = userId, like_clip = Some clipId,
                     like_comment = None, like_type = ClipLike, like_createdAt = now \<rparr>],
                next_oid := Suc (next_oid d) \<rparr> \<and>
         lr_isLiked r = True \<and>
         lr_likesCount r = countDocuments (clip_like_on clipId) (Likes d')"
  using assms by (auto simp: toggleLike_def Let_def split: if_splits)

lemma toggleLike_unlike:
  assumes "Clip_findById (Some clipId) (Clips d) = Some clip"
    and "findOne (clip_like_of userId clipId) (Likes d) = Some e"
    and "toggleLike refused now userId clipId d = (Inr r, d')"
  shows "d' = d\<lparr> Likes := deleteFirst (\<lambda>l. like_id l = like_id e) (Likes d) \<rparr> \<and>
         lr_isLiked r = False \<and>
         lr_likesCount r = countDocuments (clip_like_on clipId) (Likes d')"
  using assms by (auto simp: toggleLike_def Let_def)

lemma sample_db_reachable: "reachable refused sample_db"
  unfolding sample_db_def by (rule reach_save [OF reach_empty])

lemma liked_db_reachable: "reachable LikeSchema_duplicate liked_db"
  unfolding liked_db_def by (rule reach_like [OF sample_db_reachable])

lemma two_clips_db_reachable: "reachable LikeSchema_duplicate two_clips_db"
  unfolding two_clips_db_def by (rule reach_save [OF liked_db_reachable])

lemma toggle_sample_1:
  "toggleLike LikeSchema_duplicate 2 2 0 sample_db =
     (Inr \<lparr> lr_message = ''Clip liked successfully'', lr_isLiked = True, lr_likesCount = 1 \<rparr>,
      liked_db)"
  unfolding liked_db_def by code_simp

text \<open>
  Two toggles in a row that are both answered 200, for any behaviour of the store's
  indexes: the second answer gives the liked state and the count from before the first
  call, and the Like store is described exactly.
\<close>

lemma two_toggles_any_store:
  assumes reach: "reachable refused d"
    and clip: "Clip_findById (Some clipId) (Clips d) = Some clip"
    and t1: "toggleLike refused now1 userId clipId d = (Inr r1, d1)"
    and t2: "toggleLike refused now2 userId clipId d1 = (Inr r2, d2)"
  shows "lr_isLiked r2 = (findOne (clip_like_of userId clipId) (Likes d) \<noteq> None) \<and>
         lr_likesCount r2 = countDocuments (clip_like_on clipId) (Likes d) \<and>
         mset (map like_key (Likes d2)) = mset (map like_key (Likes d)) \<and>
         Likes d2 =
           (case findOne (clip_like_of userId clipId) (Likes d) of
              None \<Rightarrow> Likes d
            | Some e \<Rightarrow>
                remove1 e (Likes d) @
                [\<lparr> like_id = next_oid d, like_user = userId, like_clip = Some clipId,
                   like_comment = None, like_type = ClipLike, like_createdAt = now2 \<rparr>]) \<and>
         Clips d2 = Clips d \<and> Comments d2 = Comments d"
proof (cases "findOne (clip_like_of userId clipId) (Likes d)")
  case None
  let ?like = "\<lparr> like_id = next_oid d, like_user = userId, like_clip = Some clipId,
                  like_comment = None, like_type = ClipLike, like_createdAt = now1 \<rparr>"
  from toggleLike_like [OF clip None t1]
  have d1: "d1 = d\<lparr> Likes := Likes d @ [?like], next_oid := Suc (next_oid d) \<rparr>"
    by simp
  have clip1: "Clip_findById (Some clipId) (Clips d1) = Some clip"
    using clip by (simp add: d1)
  have "clip_like_of userId clipId ?like"
    by (simp add: clip_like_of_def)
  with None have found: "findOne (clip_like_of userId clipId) (Likes d1) = Some ?like"
    by (simp add: d1 findOne_append_new)
  from reachable_ids_fresh [OF reach] have "list_all (\<lambda>l. like_id l < next_oid d) (Likes d)"
    by (simp add: ids_fresh_def)
  then have "list_all (\<lambda>l. \<not> like_id l = like_id ?like) (Likes d)"
    by (auto simp: list_all_iff)
  then have restored: "deleteFirst (\<lambda>l. like_id l = like_id ?like) (Likes d1) = Likes d"
    by (simp add: d1 deleteFirst_append_new)
  from toggleLike_unlike [OF clip1 found t2] restored
  have "Likes d2 = Likes d" "Clips d2 = Clips d" "Comments d2 = Comments d"
    "lr_isLiked r2 = False" "lr_likesCount r2 = countDocuments (clip_like_on clipId) (Likes d)"
    by (simp_all add: d1)
  with None show ?thesis by simp
next
  case (Some e)
  from findOne_SomeD [OF Some] have pe: "clip_like_of userId clipId e" and ein: "e \<in> set (Likes d)"
    by simp_all
  from reachable_ids_fresh [OF reach] have dist: "distinct (map like_id (Likes d))"
    by (simp add: ids_fresh_def)
  from toggleLike_unlike [OF clip Some t1] deleteFirst_by_id [OF dist ein]
  have d1: "d1 = d\<lparr> Likes := remove1 e (Likes d) \<rparr>"
    by simp
  have clip1: "Clip_findById (Some clipId) (Clips d1) = Some clip"
    using clip by (simp add: d1)
  from reachable_likes_unique [OF reach] have "distinct (map like_key (Likes d))"
    by (simp add: likes_unique_def)
  then have "findOne (clip_like_of userId clipId) (remove1 e (Likes d)) = None"
    using ein clip_like_of_key pe by (rule findOne_remove1_unique)
  then have none1: "findOne (clip_like_of userId clipId) (Likes d1) = None"
    by (simp add: d1)
  let ?like = "\<lparr> like_id = next_oid d1, like_user = userId, like_clip = Some clipId,
                  like_comment = None, like_type = ClipLike, like_createdAt = now2 \<rparr>"
  from toggleLike_like [OF clip1 none1 t2]
  have d2: "Likes d2 = remove1 e (Likes d) @ [?like]" "Clips d2 = Clips d" "Comments d2 = Comments d"
    and r2: "lr_isLiked r2 = True" "lr_likesCount r2 = countDocuments (clip_like_on clipId) (Likes d2)"
    by (simp_all add: d1)
  have "clip_like_of userId clipId ?like"
    by (simp add: clip_like_of_def)
  then have key: "like_key ?like = like_key e"
    using clip_like_of_key [OF pe] by (simp only: clip_like_of_key)
  have "mset (map like_key (Likes d2)) = mset (map like_key (remove1 e (Likes d))) + {#like_key e#}"
    by (simp add: d2 key)
  also have "\<dots> = mset (map like_key (Likes d))"
    using ein by (rule mset_map_remove1)
  finally have m: "mset (map like_key (Likes d2)) = mset (map like_key (Likes d))" .
  have "clip_like_on clipId e"
    using pe by (rule clip_like_of_on)
  then have "Suc (length (filter (clip_like_on clipId) (remove1 e (Likes d)))) =
             length (filter (clip_like_on clipId) (Likes d))"
    using ein by (simp add: filter_remove1_count)
  then have "countDocuments (clip_like_on clipId) (Likes d2) =
             countDocuments (clip_like_on clipId) (Likes d)"
    by (simp add: countDocuments_def d2 clip_like_on_def)
  moreover have "next_oid d1 = next_oid d"
    by (simp add: d1)
  ultimately show ?thesis
    using Some m d2 r2 by simp
qed

text \<open>
  With the indexes the schema declares, a user holds at most one Like in a reachable
  state, so the Like that the first toggle removed can be stored again: the second
  toggle is answered 200 when the first one is.
\<close>

lemma one_like_per_user_toggleLike:
  assumes "one_like_per_user d"
  shows "one_like_per_user (snd (toggleLike LikeSchema_duplicate now u c d))"
proof (cases "Clip_findById (Some c) (Clips d)")
  case None
  with assms show ?thesis by (simp add: toggleLike_def)
next
  case clip: (Some clip)
  show ?thesis
  proof (cases "findOne (clip_like_of u c) (Likes d)")
    case (Some e)
    with clip assms show ?thesis
      by (simp add: toggleLike_def Let_def one_like_per_user_def deleteFirst_distinct_map
          list_all_deleteFirst)
  next
    case None
    let ?like = "\<lparr> like_id = next_oid d, like_user = u, like_clip = Some c,
                    like_comment = None, like_type = ClipLike, like_createdAt = now \<rparr>"
    show ?thesis
    proof (cases "LikeSchema_duplicate (Likes d) ?like")
      case True
      with None clip assms show ?thesis by (simp add: toggleLike_def)
    next
      case False
      have "u \<notin> like_user ` set (Likes d)"
      proof
        assume "u \<in> like_user ` set (Likes d)"
        then obtain l where l: "l \<in> set (Likes d)" "like_user l = u" by auto
        with assms have "like_type l = ClipLike" "like_comment l = None"
          by (auto simp: one_like_per_user_def list_all_iff)
        with l have "LikeSchema_duplicate (Likes d) ?like"
          by (auto simp: LikeSchema_duplicate_def list_ex_iff)
        with False show False by simp
      qed
      with False None clip assms show ?thesis
        by (simp add: toggleLike_def Let_def one_like_per_user_def)
    qed
  qed
qed

lemma one_like_per_user_deleteClip:
  "one_like_per_user d \<Longrightarrow> one_like_per_user (snd (deleteClip u c d))"
  by (auto simp: one_like_per_user_def deleteClip_def Let_def deleteMany_def distinct_map_filter
      list_all_filter split: option.splits)

lemma one_like_per_user_addComment:
  "one_like_per_user d \<Longrightarrow> one_like_per_user (snd (addComment now u c content d))"
  by (auto simp: one_like_per_user_def addComment_def Let_def split: option.splits)

lemma reachable_one_like_per_user:
  "reachable LikeSchema_duplicate d \<Longrightarrow> one_like_per_user d"
  by (induction rule: reachable.induct)
     (simp_all add: one_like_per_user_toggleLike one_like_per_user_deleteClip
        one_like_per_user_addComment,
      simp_all add: one_like_per_user_def empty_db_def saveClip_def)

lemma toggleLike_answered_iff:
  "(\<exists>r d'. toggleLike refused now u c d = (Inr r, d')) \<longleftrightarrow>
     Clip_findById (Some c) (Clips d) \<noteq> None \<and>
     (findOne (clip_like_of u c) (Likes d) = None \<longrightarrow>
        \<not> refused (Likes d)
            \<lparr> like_id = next_oid d, like_user = u, like_clip = Some c,
              like_comment = None, like_type = ClipLike, like_createdAt = now \<rparr>)"
  by (auto simp: toggleLike_def Let_def split: option.splits)

lemma toggleLike_second_answered:
  assumes reach: "reachable LikeSchema_duplicate d"
    and t1: "toggleLike LikeSchema_duplicate now1 userId clipId d = (Inr r1, d1)"
  shows "\<exists>r2 d2. toggleLike LikeSchema_duplicate now2 userId clipId d1 = (Inr r2, d2)"
proof -
  from t1 obtain clip where clip: "Clip_findById (Some clipId) (Clips d) = Some clip"
    by (auto simp: toggleLike_def split: option.splits)
  show ?thesis
  proof (cases "findOne (clip_like_of userId clipId) (Likes d)")
    case None
    let ?like = "\<lparr> like_id = next_oid d, like_user = userId, like_clip = Some clipId,
                    like_comment = None, like_type = ClipLike, like_createdAt = now1 \<rparr>"
    from toggleLike_like [OF clip None t1]
    have d1: "d1 = d\<lparr> Likes := Likes d @ [?like], next_oid := Suc (next_oid d) \<rparr>"
      by simp
    have "clip_like_of userId clipId ?like"
      by (simp add: clip_like_of_def)
    with None have "findOne (clip_like_of userId clipId) (Likes d1) = Some ?like"
      by (simp add: d1 findOne_append_new)
    with clip show ?thesis
      by (simp add: toggleLike_answered_iff d1)
  next
    case (Some e)
    from findOne_SomeD [OF Some] have pe: "clip_like_of userId clipId e" and ein: "e \<in> set (Likes d)"
      by simp_all
    from reachable_ids_fresh [OF reach] have dist: "distinct (map like_id (Likes d))"
      by (simp add: ids_fresh_def)
    from toggleLike_unlike [OF clip Some t1] deleteFirst_by_id [OF dist ein]
    have d1: "d1 = d\<lparr> Likes := remove1 e (Likes d) \<rparr>"
      by simp
    from reachable_one_like_per_user [OF reach]
    have users: "distinct (map like_user (Likes d))"
      by (simp add: one_like_per_user_def)
    have "like_user l \<noteq> userId" if "l \<in> set (remove1 e (Likes d))" for l
    proof
      assume "like_user l = userId"
      moreover from pe have "like_user e = userId" by (simp add: clip_like_of_def)
      moreover from users have "distinct (Likes d)" by (simp add: distinct_map)
      with that have "l \<in> set (Likes d)" "l \<noteq> e" by auto
      ultimately show False
        using users ein by (auto simp: distinct_map inj_on_def)
    qed
    then have "\<not> LikeSchema_duplicate (Likes d1) l'" if "like_user l' = userId" for l'
      using that by (auto simp: d1 LikeSchema_duplicate_def list_ex_iff)
    with clip show ?thesis
      by (simp add: toggleLike_answered_iff d1)
  qed
qed

text \<open>
  Claim C4, as stated, fails in two ways. The Like store is not the one before: user 2
  holds the Like with id 1, created at time 2, on clip 0; after two toggles, both
  answered 200, the store holds a Like with id 2, created at time 4. And the toggle is
  not answered for every existing clip and viewer: in the reachable state with the
  clips 0 and 2, where user 2 holds a Like on clip 0, the toggle of user 2 on clip 2 is
  answered 500 each time, because the new Like collides with the stored one in the
  index on \<^verbatim>\<open>(user, comment, type)\<close>, both lacking the \<^verbatim>\<open>comment\<close> field.
\<close>

theorem toggleLike_twice_not_original:
  "reachable LikeSchema_duplicate liked_db \<and>
   toggleLike LikeSchema_duplicate 3 2 0 liked_db =
     (Inr \<lparr> lr_message = ''Clip unliked successfully'', lr_isLiked = False, lr_likesCount = 0 \<rparr>,
      sample_db\<lparr> next_oid := 2 \<rparr>) \<and>
   Likes liked_db =
     [\<lparr> like_id = 1, like_user = 2, like_clip = Some 0, like_comment = None,
        like_type = ClipLike, like_createdAt = 2 \<rparr>] \<and>
   fst (toggleLike LikeSchema_duplicate 4 2 0 (sample_db\<lparr> next_oid := 2 \<rparr>)) =
     Inr \<lparr> lr_message = ''Clip liked successfully'', lr_isLiked = True, lr_likesCount = 1 \<rparr> \<and>
   Likes (snd (toggleLike LikeSchema_duplicate 4 2 0 (sample_db\<lparr> next_oid := 2 \<rparr>))) =
     [\<lparr> like_id = 2, like_user = 2, like_clip = Some 0, like_comment = None,
        like_type = ClipLike, like_createdAt = 4 \<rparr>] \<and>
   Likes (snd (toggleLike LikeSchema_duplicate 4 2 0 (sample_db\<lparr> next_oid := 2 \<rparr>))) \<noteq> Likes liked_db \<and>
   reachable LikeSchema_duplicate two_clips_db \<and>
   map clip_id (Clips two_clips_db) = [0, 2] \<and>
   map like_key (Likes two_clips_db) = [(2, Some 0, ClipLike)] \<and>
   toggleLike LikeSchema_duplicate 5 2 2 two_clips_db = (Inl (ServerError ''Server error''), two_clips_db) \<and>
   toggleLike LikeSchema_duplicate 6 2 2 two_clips_db = (Inl (ServerError ''Server error''), two_clips_db)"
proof -
  have a: "toggleLike LikeSchema_duplicate 3 2 0 liked_db =
     (Inr \<lparr> lr_message = ''Clip unliked successfully'', lr_isLiked = False, lr_likesCount = 0 \<rparr>,
      sample_db\<lparr> next_oid := 2 \<rparr>)"
    by code_simp
  have b: "Likes liked_db =
     [\<lparr> like_id = 1, like_user = 2, like_clip = Some 0, like_comment = None,
        like_type = ClipLike, like_createdAt = 2 \<rparr>]"
    by code_simp
  have c: "Likes (snd (toggleLike LikeSchema_duplicate 4 2 0 (sample_db\<lparr> next_oid := 2 \<rparr>))) =
     [\<lparr> like_id = 2, like_user = 2, like_clip = Some 0, like_comment = None,
        like_type = ClipLike, like_createdAt = 4 \<rparr>]"
    by code_simp
  have r: "fst (toggleLike LikeSchema_duplicate 4 2 0 (sample_db\<lparr> next_oid := 2 \<rparr>)) =
     Inr \<lparr> lr_message = ''Clip liked successfully'', lr_isLiked = True, lr_likesCount = 1 \<rparr>"
    by code_simp
  have e: "map clip_id (Clips two_clips_db) = [0, 2]"
    by code_simp
  have f: "map like_key (Likes two_clips_db) = [(2, Some 0, ClipLike)]"
    by code_simp
  have g: "toggleLike LikeSchema_duplicate 5 2 2 two_clips_db = (Inl (ServerError ''Server error''), two_clips_db)"
    by code_simp
  have h: "toggleLike LikeSchema_duplicate 6 2 2 two_clips_db = (Inl (ServerError ''Server error''), two_clips_db)"
    by code_simp
  from b c have "Likes (snd (toggleLike LikeSchema_duplicate 4 2 0 (sample_db\<lparr> next_oid := 2 \<rparr>))) \<noteq> Likes liked_db"
    by simp
  with liked_db_reachable a b r c e f g h two_clips_db_reachable show ?thesis
    by (intro conjI)
qed

text \<open>
  Claim C4, amended. In a reachable state, for an existing clip and a viewer, when the
  first toggle is answered 200 then so is a second one right after it; its
  \<^verbatim>\<open>isLiked\<close> is the liked state before the first call, its \<^verbatim>\<open>likesCount\<close> is the
  count before the first call, the Like store holds the same (user, target, kind)
  entries as before, and the clips and the comments are untouched. When the viewer had
  not liked the clip, the Like store is the very list it was; when the viewer had, the
  viewer's Like has been removed and a new document with the same user, clip and kind,
  a new id and the time of the second call stands at the end.
\<close>

theorem toggleLike_twice:
  assumes reach: "reachable LikeSchema_duplicate d"
    and clip: "Clip_findById (Some clipId) (Clips d) = Some clip"
    and t1: "toggleLike LikeSchema_duplicate now1 userId clipId d = (Inr r1, d1)"
  shows "\<exists>r2 d2.
         toggleLike LikeSchema_duplicate now2 userId clipId d1 = (Inr r2, d2) \<and>
         lr_isLiked r2 = (findOne (clip_like_of userId clipId) (Likes d) \<noteq> None) \<and>
         lr_likesCount r2 = countDocuments (clip_like_on clipId) (Likes d) \<and>
         mset (map like_key (Likes d2)) = mset (map like_key (Likes d)) \<and>
         Likes d2 =
           (case findOne (clip_like_of userId clipId) (Likes d) of
              None \<Rightarrow> Likes d
            | Some e \<Rightarrow>
                remove1 e (Likes d) @
                [\<lparr> like_id = next_oid d, like_user = userId, like_clip = Some clipId,
                   like_comment = None, like_type = ClipLike, like_createdAt = now2 \<rparr>]) \<and>
         Clips d2 = Clips d \<and> Comments d2 = Comments d"
proof -
  from toggleLike_second_answered [OF reach t1] obtain r2 d2 where
    t2: "toggleLike LikeSchema_duplicate now2 userId clipId d1 = (Inr r2, d2)"
    by blast
  from two_toggles_any_store [OF reach clip t1 t2] t2 show ?thesis
    by blast
qed

theorem toggleLike_twice_witness:
  "reachable LikeSchema_duplicate liked_db \<and>
   Clip_findById (Some 0) (Clips liked_db) = Some (sample_clip\<lparr> clip_id := 0 \<rparr>) \<and>
   toggleLike LikeSchema_duplicate 3 2 0 liked_db =
     (Inr \<lparr> lr_message = ''Clip unliked successfully'', lr_isLiked = False, lr_likesCount = 0 \<rparr>,
      sample_db\<lparr> next_oid := 2 \<rparr>) \<and>
   fst (toggleLike LikeSchema_duplicate 4 2 0 (sample_db\<lparr> next_oid := 2 \<rparr>)) =
      Inr \<lparr> lr_message = ''Clip liked successfully'', lr_isLiked = True, lr_likesCount = 1 \<rparr> \<and>
   findOne (clip_like_of 2 0) (Likes liked_db) \<noteq> None \<and>
   countDocuments (clip_like_on 0) (Likes liked_db) = 1 \<and>
   mset (map like_key (Likes (snd (toggleLike LikeSchema_duplicate 4 2 0 (sample_db\<lparr> next_oid := 2 \<rparr>))))) =
     mset (map like_key (Likes liked_db))"
proof -
  have c: "Clip_findById (Some 0) (Clips liked_db) = Some (sample_clip\<lparr> clip_id := 0 \<rparr>)"
    by code_simp
  have t1: "toggleLike LikeSchema_duplicate 3 2 0 liked_db =
     (Inr \<lparr> lr_message = ''Clip unliked successfully'', lr_isLiked = False, lr_likesCount = 0 \<rparr>,
      sample_db\<lparr> next_oid := 2 \<rparr>)"
    by code_simp
  have r: "fst (toggleLike LikeSchema_duplicate 4 2 0 (sample_db\<lparr> next_oid := 2 \<rparr>)) =
      Inr \<lparr> lr_message = ''Clip liked successfully'', lr_isLiked = True, lr_likesCount = 1 \<rparr>"
    by code_simp
  have f: "findOne (clip_like_of 2 0) (Likes liked_db) \<noteq> None"
    by code_simp
  have n: "countDocuments (clip_like_on 0) (Likes liked_db) = 1"
    by code_simp
  from toggleLike_twice [OF liked_db_reachable c t1, of 4]
  have "mset (map like_key (Likes (snd (toggleLike LikeSchema_duplicate 4 2 0 (sample_db\<lparr> next_oid := 2 \<rparr>))))) =
     mset (map like_key (Likes liked_db))"
    by auto
  with liked_db_reachable c t1 r f n show ?thesis
    by (intro conjI)
qed

subsection \<open>At most one Like per user, target and kind\<close>

text \<open>
  Claim C6. In every reachable state no two Likes have the same (user, target, kind),
  and after a like toggle by a viewer on a clip at most one Like of that viewer on that
  clip of kind clip is stored. This rests on the existence check of the toggle alone: it
  holds whatever saves the store refuses.
\<close>

theorem likes_unique_in_reachable_states:
  assumes "reachable refused d"
  shows "likes_unique d \<and>
         countDocuments (clip_like_of userId clipId)
           (Likes (snd (toggleLike refused now userId clipId d))) \<le> 1"
proof -
  have "reachable refused (snd (toggleLike refused now userId clipId d))"
    using assms by (rule reach_like)
  then have "likes_unique (snd (toggleLike refused now userId clipId d))"
    by (rule reachable_likes_unique)
  then have "length (filter (clip_like_of userId clipId)
               (Likes (snd (toggleLike refused now userId clipId d)))) \<le> 1"
    unfolding likes_unique_def
    by (rule distinct_key_filter_le1) (rule clip_like_of_key)
  with reachable_likes_unique [OF assms] show ?thesis
    by (simp add: countDocuments_def)
qed

theorem likes_unique_in_reachable_states_witness:
  "reachable LikeSchema_duplicate liked_db \<and>
   likes_unique liked_db \<and>
   map like_key (Likes liked_db) = [(2, Some 0, ClipLike)] \<and>
   countDocuments (clip_like_of 3 0) (Likes (snd (toggleLike LikeSchema_duplicate 4 3 0 liked_db))) = 1"
proof -
  have k: "map like_key (Likes liked_db) = [(2, Some 0, ClipLike)]"
    by code_simp
  have c: "countDocuments (clip_like_of 3 0) (Likes (snd (toggleLike LikeSchema_duplicate 4 3 0 liked_db))) = 1"
    by code_simp
  from likes_unique_in_reachable_states [OF liked_db_reachable, of 3 0 4]
  have "likes_unique liked_db" by simp
  with liked_db_reachable k c show ?thesis by simp
qed

text \<open>
  The indexes of the schema give the same on their own: a save they accept never adds a
  second Like with the (user, target, kind) of a stored one, whatever was checked before.
\<close>

theorem accepted_save_keeps_likes_unique:
  assumes "likes_unique d" and "\<not> LikeSchema_duplicate (Likes d) l"
  shows "likes_unique (d\<lparr> Likes := Likes d @ [l] \<rparr>)"
proof -
  from assms have u: "distinct (map like_key (Likes d))"
    and n: "\<And>l'. l' \<in> set (Likes d) \<Longrightarrow>
              \<not> (like_user l' = like_user l \<and> like_type l' = like_type l \<and>
                 (like_clip l' = like_clip l \<or> like_comment l' = like_comment l))"
    by (auto simp: likes_unique_def LikeSchema_duplicate_def list_ex_iff)
  have "like_key l \<notin> like_key ` set (Likes d)"
  proof
    assume "like_key l \<in> like_key ` set (Likes d)"
    then obtain l' where l': "l' \<in> set (Likes d)" "like_key l' = like_key l"
      by auto
    then have "like_user l' = like_user l \<and> like_type l' = like_type l \<and>
               (like_clip l' = like_clip l \<or> like_comment l' = like_comment l)"
      by (cases "like_type l"; cases "like_type l'") (auto simp: like_key_def like_target_def)
    with n [OF l'(1)] show False by blast
  qed
  with u show ?thesis
    by (simp add: likes_unique_def)
qed

theorem accepted_save_keeps_likes_unique_witness:
  "likes_unique liked_db \<and>
   \<not> LikeSchema_duplicate (Likes liked_db)
       \<lparr> like_id = 9, like_user = 3, like_clip = Some 0, like_comment = None,
         like_type = ClipLike, like_createdAt = 7 \<rparr> \<and>
   likes_unique (liked_db\<lparr> Likes := Likes liked_db @
       [\<lparr> like_id = 9, like_user = 3, like_clip = Some 0, like_comment = None,
          like_type = ClipLike, like_createdAt = 7 \<rparr>] \<rparr>)"
proof -
  have u: "likes_unique liked_db"
    by code_simp
  have n: "\<not> LikeSchema_duplicate (Likes liked_db)
       \<lparr> like_id = 9, like_user = 3, like_clip = Some 0, like_comment = None,
         like_type = ClipLike, like_createdAt = 7 \<rparr>"
    by code_simp
  from accepted_save_keeps_likes_unique [OF u n] u n show ?thesis by simp
qed

subsection \<open>Deleting a clip\<close>

text \<open>
  Claim C5. After a clip deletion that is answered 200 in a reachable state (so by the
  clip's owner), the clip is not found any more, no comment on the clip is left, and no
  Like of kind clip on the clip is left.
\<close>

theorem deleteClip_cascade:
  assumes "reachable refused d" and "deleteClip userId clipId d = (Inr msg, d')"
  shows "Clip_findById (Some clipId) (Clips d') = None \<and>
         filter (comment_on clipId) (Comments d') = [] \<and>
         filter (clip_like_on clipId) (Likes d') = []"
proof -
  from assms(2) obtain clip where
    c: "Clip_findById (Some clipId) (Clips d) = Some clip" and o: "clip_user clip = userId"
    by (auto simp: deleteClip_def split: option.splits if_splits)
  from assms(2) c o have d':
    "d' = d\<lparr> Comments := deleteMany (comment_on clipId) (Comments d),
            Likes := deleteMany (clip_like_on clipId) (Likes d),
            Clips := deleteFirst (\<lambda>c. clip_id c = clipId) (Clips d) \<rparr>"
    by (auto simp: deleteClip_def Let_def)
  from reachable_ids_fresh [OF assms(1)] have "distinct (map clip_id (Clips d))"
    by (simp add: ids_fresh_def)
  then have "filter (\<lambda>c. clip_id c = clipId) (deleteFirst (\<lambda>c. clip_id c = clipId) (Clips d)) = []"
    by (rule deleteFirst_by_id_absent)
  then have "Clip_findById (Some clipId) (Clips d') = None"
    by (simp add: d' Clip_findById_def findOne_None_iff)
  then show ?thesis
    by (simp add: d' deleteMany_def)
qed

theorem deleteClip_cascade_witness:
  "reachable LikeSchema_duplicate liked_db \<and>
   deleteClip 1 0 liked_db =
     (Inr ''Clip deleted successfully'', \<lparr> Clips = [], Comments = [], Likes = [], next_oid = 2 \<rparr>) \<and>
   countDocuments (clip_like_on 0) (Likes liked_db) = 1 \<and>
   Clip_findById (Some 0) [] = None"
proof -
  have e: "deleteClip 1 0 liked_db =
     (Inr ''Clip deleted successfully'', \<lparr> Clips = [], Comments = [], Likes = [], next_oid = 2 \<rparr>)"
    by code_simp
  have c: "countDocuments (clip_like_on 0) (Likes liked_db) = 1"
    by code_simp
  from deleteClip_cascade [OF liked_db_reachable e]
  have "Clip_findById (Some 0) [] = None" by simp
  with liked_db_reachable e c show ?thesis by simp
qed

text \<open>
  Claim C7. Deleting an existing clip as a user who does not own it is answered 403, and
  the database (clips, comments and likes) is the one before the call.
\<close>

theorem deleteClip_not_owner:
  assumes "Clip_findById (Some clipId) (Clips d) = Some clip" and "clip_user clip \<noteq> userId"
  shows "deleteClip userId clipId d = (Inl (Forbidden ''User not authorized to delete this clip''), d)"
  using assms by (simp add: deleteClip_def)

theorem deleteClip_not_owner_witness:
  "Clip_findById (Some 0) (Clips liked_db) = Some (sample_clip\<lparr> clip_id := 0 \<rparr>) \<and>
   clip_user (sample_clip\<lparr> clip_id := 0 \<rparr>) \<noteq> 2 \<and>
   deleteClip 2 0 liked_db = (Inl (Forbidden ''User not authorized to delete this clip''), liked_db)"
proof -
  have f: "Clip_findById (Some 0) (Clips liked_db) = Some (sample_clip\<lparr> clip_id := 0 \<rparr>)"
    by code_simp
  have o: "clip_user (sample_clip\<lparr> clip_id := 0 \<rparr>) \<noteq> 2"
    by code_simp
  from deleteClip_not_owner [OF f o] f o show ?thesis by simp
qed

subsection \<open>The feed and the single clip\<close>

text \<open>
  \<^verbatim>\<open>clips.js\<close> never binds the name \<^verbatim>\<open>jwt\<close>, so the credential check throws inside
  the \<^verbatim>\<open>try\<close> and \<^verbatim>\<open>isLiked\<close> is false for every viewer.
\<close>

lemma clipIsLiked_False: "clipIsLiked verify authorization likes clipId = False"
  by (simp add: clipIsLiked_def jwt_verify_def clips_js_bindings_def split: option.splits)

lemma getClips_never_liked:
  "list_all (\<lambda>v. \<not> isLiked v) (fp_clips (getClips verify authorization pageQ limitQ d))"
  by (simp add: getClips_def Let_def clipWithCounts_def clipIsLiked_False list_all_iff)

text \<open>
  Claim C1. With no credential every item of the feed has \<^verbatim>\<open>isLiked\<close> false, which the
  lemma above gives. With a valid credential the claim wants \<^verbatim>\<open>isLiked\<close> true exactly
  for the clips the viewer likes; the code answers false there too. Here user 2 holds the
  one Like on clip 0 and presents the credential the verifier accepts, and the feed
  still says false.
\<close>

theorem getClips_isLiked_with_valid_credential:
  "sample_verify ''token-of-user-2'' = Some 2 \<and>
   countDocuments (clip_like_of 2 0) (Likes liked_db) = 1 \<and>
   map clip_id (Clips liked_db) = [0] \<and>
   map isLiked (fp_clips (getClips sample_verify (Some ''Bearer token-of-user-2'') None None liked_db)) = [False]"
  by code_simp

text \<open>Without an id in the query string the single-clip route finds nothing.\<close>

lemma getClip_without_query_id:
  "getClip verify authorization params_id None d = Inl (NotFound ''Clip not found'')"
  by (simp add: getClip_def Clip_findById_def)

text \<open>
  Claim C2. The claim wants 404 exactly when no clip has the id of the path. The handler
  reads the id from the query string instead: clip 0 exists and \<^verbatim>\<open>GET /0\<close> is answered
  404, while \<^verbatim>\<open>GET /5?id=0\<close> is answered with clip 0 although no clip has id 5.
\<close>

theorem getClip_ignores_path_id:
  "map clip_id (Clips sample_db) = [0] \<and>
   getClip sample_verify None 0 None sample_db = Inl (NotFound ''Clip not found'') \<and>
   map_sum id (\<lambda>v. clip_id (cv_clip v)) (getClip sample_verify None 5 (Some 0) sample_db) = Inr 0"
  by code_simp

section \<open>Properties of the extraction\<close>













text \<open>
  A negative start can only come from a text outside the \<^verbatim>\<open>mm:ss\<close> form. There an
  end of zero seconds counts as no end: the check is
  \<^verbatim>\<open>endTimeSeconds && startTimeSeconds < endTimeSeconds\<close>.
\<close>

lemma extractVideoInfo_negative_start:
  "extractVideoInfo sample_youtubeDl sample_url (Some ''0:-5'') (Some ''0:00'') =
     Some (Inr \<lparr> videoId = ''dQw4w9WgXcQ'', title = ''Sample'',
           thumbnailUrl = ''https://img.youtube.com/vi/dQw4w9WgXcQ/hqdefault.jpg'',
           duration = ''10:00'', startTimeSeconds = Fin (- 5), endTimeSeconds = Some (Fin 0) \<rparr>)"
  by code_simp

text \<open>Time texts with a fraction or an exponent are outside the numbers of the model.\<close>

lemma extractVideoInfo_unmodelled_text:
  "extractVideoInfo sample_youtubeDl sample_url (Some ''1:30.5'') (Some ''2:00'') = None \<and>
   extractVideoInfo sample_youtubeDl sample_url (Some ''0:00'') (Some ''1e2:00'') = None"
  by code_simp

section \<open>Properties of the video reference\<close>

subsection \<open>How the pattern matches\<close>

lemma regExp_parts: "regExp = Seq (Star AnyChar) (Seq rx_markers rx_tail)"
  by (simp add: regExp_def rx_markers_def rx_tail_def rx_capture_def)

lemma rx_lits_fail: "c \<in> set w \<Longrightarrow> c \<notin> set s \<Longrightarrow> rx_match (lits w) s cs k = None"
proof (induction w arbitrary: s)
  case Nil
  then show ?case by simp
next
  case (Cons a w)
  show ?case
  proof (cases s)
    case Nil
    then show ?thesis by simp
  next
    case (Cons x r)
    with Cons.prems Cons.IH [of r] show ?thesis by auto
  qed
qed

lemma rx_lits_cont_fail:
  "(\<And>s' cs'. set s' \<subseteq> set s \<Longrightarrow> k s' cs' = None) \<Longrightarrow> rx_match (lits w) s cs k = None"
proof (induction w arbitrary: s)
  case Nil
  then show ?case by simp
next
  case (Cons a w)
  show ?case
  proof (cases s)
    case Nil
    then show ?thesis by simp
  next
    case (Cons x r)
    have "rx_match (lits w) r cs k = None"
      by (rule Cons.IH) (rule Cons.prems, use Cons in auto)
    with Cons show ?thesis by simp
  qed
qed

lemma rx_markers_fail:
  assumes "CHR ''/'' \<notin> set s" and "CHR ''?'' \<notin> set s"
  shows "rx_match rx_markers s cs k = None"
proof -
  have a: "rx_match (Seq (lits ''youtu'') (Seq AnyChar (lits ''be/''))) s cs k' = None" for k'
  proof -
    have "rx_match (Seq AnyChar (lits ''be/'')) s' cs' k' = None" if "set s' \<subseteq> set s" for s' cs'
    proof (cases s')
      case Nil
      then show ?thesis by simp
    next
      case (Cons x r)
      with that assms(1) have "CHR ''/'' \<notin> set r" by auto
      then have "rx_match (lits ''be/'') r cs' k' = None"
        by (intro rx_lits_fail [where c = "CHR ''/''"]) simp_all
      with Cons show ?thesis by simp
    qed
    then have "rx_match (lits ''youtu'') s cs (\<lambda>s' cs'. rx_match (Seq AnyChar (lits ''be/'')) s' cs' k') = None"
      by (intro rx_lits_cont_fail) simp
    then show ?thesis by simp
  qed
  have b: "rx_match (lits ''v/'') s cs k' = None" for k'
    using assms(1) by (intro rx_lits_fail [where c = "CHR ''/''"]) simp_all
  have c: "rx_match (Seq (lits ''/u/'') (Seq WordChar (Lit (CHR ''/'')))) s cs k' = None" for k'
  proof -
    have "rx_match (lits ''/u/'') s cs k'' = None" for k''
      using assms(1) by (intro rx_lits_fail [where c = "CHR ''/''"]) simp_all
    then show ?thesis by simp
  qed
  have d: "rx_match (lits ''embed/'') s cs k' = None" for k'
    using assms(1) by (intro rx_lits_fail [where c = "CHR ''/''"]) simp_all
  have e: "rx_match (lits ''watch?'') s cs k' = None" for k'
    using assms(2) by (intro rx_lits_fail [where c = "CHR ''?''"]) simp_all
  show ?thesis
    unfolding rx_markers_def
    by (simp only: rx_match.simps(6) rx_match.simps(9) a b c d e option.case)
qed

lemma star_any_Nil: "rx_match (Star AnyChar) [] cs k = k [] cs"
  by simp

lemma star_any_Cons:
  "\<not> isLineTerminator x \<Longrightarrow>
   rx_match (Star AnyChar) (x # r) cs k =
     (case rx_match (Star AnyChar) r cs k of Some m \<Rightarrow> Some m | None \<Rightarrow> k (x # r) cs)"
  by (subst rx_match.simps) simp

lemma star_any_fail:
  assumes "list_all (\<lambda>c. \<not> isLineTerminator c) s"
    and "\<And>s'. set s' \<subseteq> set s \<Longrightarrow> k s' cs = None"
  shows "rx_match (Star AnyChar) s cs k = None"
  using assms
proof (induction s)
  case Nil
  then show ?case by (simp del: rx_match.simps add: star_any_Nil)
next
  case (Cons x r)
  have "rx_match (Star AnyChar) r cs k = None"
    by (rule Cons.IH) (use Cons.prems in auto)
  moreover have "k (x # r) cs = None"
    by (rule Cons.prems(2)) simp
  ultimately show ?case
    using Cons.prems(1) by (simp del: rx_match.simps add: star_any_Cons)
qed

lemma star_any_prefix:
  assumes "list_all (\<lambda>c. \<not> isLineTerminator c) p"
    and "rx_match (Star AnyChar) s cs k = Some m"
  shows "rx_match (Star AnyChar) (p @ s) cs k = Some m"
  using assms by (induction p) (simp_all del: rx_match.simps add: star_any_Cons)

lemma star_noneof_all:
  assumes "list_all (\<lambda>c. c \<notin> set xs) v" and "k [] cs = Some m"
  shows "rx_match (Star (NoneOf xs)) v cs k = Some m"
  using assms
proof (induction v)
  case Nil
  then show ?case by simp
next
  case (Cons x r)
  then have "rx_match (Star (NoneOf xs)) r cs k = Some m" by simp
  with Cons.prems(1) show ?case
    by (subst rx_match.simps) simp
qed

lemma isIdChar_simps:
  assumes "isIdChar c"
  shows "c \<noteq> CHR ''/''" "c \<noteq> CHR ''?''" "c \<noteq> CHR ''=''" "c \<noteq> CHR ''#''" "c \<noteq> CHR ''&''"
    "\<not> isLineTerminator c"
  using assms by (auto simp: isIdChar_def isWordChar_def isLineTerminator_def Let_def)

lemma rx_capture_id:
  assumes "list_all isIdChar v"
  shows "rx_match rx_capture v cs (\<lambda>_ cs. Some cs) = Some (cs(7 \<mapsto> v))"
proof -
  have "list_all (\<lambda>c. c \<notin> set ''#&?'') v"
    using assms by (auto simp: list_all_iff dest: isIdChar_simps)
  then have "rx_match (Star (NoneOf ''#&?'')) v cs
               (\<lambda>s' cs'. rx_match (Star AnyChar) s' (cs'(7 \<mapsto> take (length v - length s') v)) (\<lambda>_ cs. Some cs))
             = Some (cs(7 \<mapsto> v))"
    by (rule star_noneof_all) simp
  then show ?thesis
    by (simp add: rx_capture_def del: rx_match.simps(7))
qed

lemma rx_tail_id:
  assumes "list_all isIdChar v" and "v = x # r" and "x \<noteq> CHR ''v''"
  shows "rx_match rx_tail v cs (\<lambda>_ cs. Some cs) = Some (cs(7 \<mapsto> v))"
proof -
  from assms(1,2) have "isIdChar x" by simp
  then have x: "x \<noteq> CHR ''?''" "x \<noteq> CHR ''=''" by (simp_all add: isIdChar_simps)
  have "rx_match rx_capture (x # r) cs (\<lambda>_ cs. Some cs) = Some (cs(7 \<mapsto> x # r))"
    using assms(1,2) by (simp only: rx_capture_id)
  with x assms(3) show ?thesis
    by (simp add: rx_tail_def assms(2))
qed

lemma rx_tail_watch:
  assumes "list_all isIdChar v"
  shows "rx_match rx_tail (''v='' @ v) cs (\<lambda>_ cs. Some cs) = Some (cs(7 \<mapsto> v))"
  using rx_capture_id [OF assms] by (simp add: rx_tail_def)

lemma after_star_fail:
  "CHR ''/'' \<notin> set s \<Longrightarrow> CHR ''?'' \<notin> set s \<Longrightarrow> after_star s cs = None"
  by (simp add: after_star_def rx_markers_fail)

lemma star_any_id_fail:
  assumes "list_all isIdChar v"
  shows "rx_match (Star AnyChar) v cs after_star = None"
proof (rule star_any_fail)
  show "list_all (\<lambda>c. \<not> isLineTerminator c) v"
    using assms by (auto simp: list_all_iff dest: isIdChar_simps)
next
  fix s' assume "set s' \<subseteq> set v"
  with assms have "CHR ''/'' \<notin> set s'" "CHR ''?'' \<notin> set s'"
    by (auto simp: list_all_iff dest: isIdChar_simps)
  then show "after_star s' cs = None" by (rule after_star_fail)
qed

lemma js_match_regExp: "js_match regExp s = rx_match (Star AnyChar) s (\<lambda>_. None) after_star"
  by (simp add: js_match_def regExp_parts after_star_def [abs_def] del: rx_match.simps(7))

lemma short_link_match:
  assumes ids: "list_all isIdChar v" and v: "v = x # y # r" and nv: "x \<noteq> CHR ''v''"
  shows "\<exists>m. rx_match (Star AnyChar) (''youtu.be/'' @ v) cs after_star = Some m \<and> m 7 = Some v"
proof -
  from ids v have "isIdChar x" "isIdChar y" by simp_all
  then have xy: "x \<noteq> CHR ''/''" "y \<noteq> CHR ''/''" by (simp_all add: isIdChar_simps)
  have z: "rx_match (Star AnyChar) v cs after_star = None"
    by (rule star_any_id_fail [OF ids])
  have f:
    "after_star (''/'' @ v) cs = None"
    "after_star (''e/'' @ v) cs = None"
    "after_star (''be/'' @ v) cs = None"
    "after_star (''.be/'' @ v) cs = None"
    "after_star (''u.be/'' @ v) cs = None"
    "after_star (''tu.be/'' @ v) cs = None"
    "after_star (''utu.be/'' @ v) cs = None"
    "after_star (''outu.be/'' @ v) cs = None"
    using xy by (simp_all add: v after_star_def rx_markers_def)
  have "rx_match rx_tail v cs' (\<lambda>_ cs. Some cs) = Some (cs'(7 \<mapsto> v))" for cs'
    using ids v nv by (rule rx_tail_id)
  then have "\<exists>m. after_star (''youtu.be/'' @ v) cs = Some m \<and> m 7 = Some v"
    by (simp add: after_star_def rx_markers_def isLineTerminator_def)
  then obtain m where m: "after_star (''youtu.be/'' @ v) cs = Some m" "m 7 = Some v"
    by blast
  have "rx_match (Star AnyChar) (''youtu.be/'' @ v) cs after_star = Some m"
    using z f m(1)
    by (simp add: star_any_Cons isLineTerminator_def del: rx_match.simps(7))
  with m(2) show ?thesis by blast
qed

lemma embed_match:
  assumes ids: "list_all isIdChar v" and v: "v = x # y # r" and nv: "x \<noteq> CHR ''v''"
  shows "\<exists>m. rx_match (Star AnyChar) (''embed/'' @ v) cs after_star = Some m \<and> m 7 = Some v"
proof -
  from ids v have "isIdChar x" "isIdChar y" by simp_all
  then have xy: "x \<noteq> CHR ''/''" "y \<noteq> CHR ''/''" by (simp_all add: isIdChar_simps)
  have z: "rx_match (Star AnyChar) v cs after_star = None"
    by (rule star_any_id_fail [OF ids])
  have f:
    "after_star (''/'' @ v) cs = None"
    "after_star (''d/'' @ v) cs = None"
    "after_star (''ed/'' @ v) cs = None"
    "after_star (''bed/'' @ v) cs = None"
    "after_star (''mbed/'' @ v) cs = None"
    using xy by (simp_all add: v after_star_def rx_markers_def)
  have "rx_match rx_tail v cs' (\<lambda>_ cs. Some cs) = Some (cs'(7 \<mapsto> v))" for cs'
    using ids v nv by (rule rx_tail_id)
  then have "\<exists>m. after_star (''embed/'' @ v) cs = Some m \<and> m 7 = Some v"
    by (simp add: after_star_def rx_markers_def isLineTerminator_def)
  then obtain m where m: "after_star (''embed/'' @ v) cs = Some m" "m 7 = Some v"
    by blast
  have "rx_match (Star AnyChar) (''embed/'' @ v) cs after_star = Some m"
    using z f m(1)
    by (simp add: star_any_Cons isLineTerminator_def del: rx_match.simps(7))
  with m(2) show ?thesis by blast
qed

lemma watch_match:
  assumes ids: "list_all isIdChar v" and v: "v = x # y # r"
  shows "\<exists>m. rx_match (Star AnyChar) (''watch?v='' @ v) cs after_star = Some m \<and> m 7 = Some v"
proof -
  from ids v have "isIdChar x" "isIdChar y" by simp_all
  then have xy: "x \<noteq> CHR ''/''" "y \<noteq> CHR ''/''" by (simp_all add: isIdChar_simps)
  have z: "rx_match (Star AnyChar) v cs after_star = None"
    by (rule star_any_id_fail [OF ids])
  have f:
    "after_star (''='' @ v) cs = None"
    "after_star (''v='' @ v) cs = None"
    "after_star (''?v='' @ v) cs = None"
    "after_star (''h?v='' @ v) cs = None"
    "after_star (''ch?v='' @ v) cs = None"
    "after_star (''tch?v='' @ v) cs = None"
    "after_star (''atch?v='' @ v) cs = None"
    using xy by (simp_all add: v after_star_def rx_markers_def)
  have "rx_match rx_tail (''v='' @ v) cs' (\<lambda>_ cs. Some cs) = Some (cs'(7 \<mapsto> v))" for cs'
    using ids by (rule rx_tail_watch)
  then have "\<exists>m. after_star (''watch?v='' @ v) cs = Some m \<and> m 7 = Some v"
    by (simp add: after_star_def rx_markers_def isLineTerminator_def)
  then obtain m where m: "after_star (''watch?v='' @ v) cs = Some m" "m 7 = Some v"
    by blast
  have "rx_match (Star AnyChar) (''watch?v='' @ v) cs after_star = Some m"
    using z f m(1)
    by (simp add: star_any_Cons isLineTerminator_def del: rx_match.simps(7))
  with m(2) show ?thesis by blast
qed

lemma extractVideoId_from_match:
  assumes "list_all (\<lambda>c. \<not> isLineTerminator c) p"
    and "\<exists>m. rx_match (Star AnyChar) s (\<lambda>_. None) after_star = Some m \<and> m 7 = Some v"
    and "length v = 11"
  shows "extractVideoId (p @ s) = Some v"
proof -
  from assms(2) obtain m where
    m: "rx_match (Star AnyChar) s (\<lambda>_. None) after_star = Some m" "m 7 = Some v"
    by blast
  from assms(1) m(1) have "rx_match (Star AnyChar) (p @ s) (\<lambda>_. None) after_star = Some m"
    by (rule star_any_prefix)
  with m(2) assms(3) show ?thesis
    by (simp add: extractVideoId_def js_match_regExp del: rx_match.simps(7))
qed

lemma length_11_Cons: "length v = 11 \<Longrightarrow> \<exists>x y r. v = x # y # r"
  by (cases v; simp) (metis Suc_length_conv numeral_eq_Suc pred_numeral_simps(3))

subsection \<open>The three URL forms\<close>

text \<open>
  Claim C9. An identifier is returned only when the captured text has 11 characters,
  but the three URL forms of one identifier do not always give it: after the marker
  the pattern skips an optional \<^verbatim>\<open>v\<close>, so an identifier that starts with \<^verbatim>\<open>v\<close> loses
  its first character in the short-link and embed forms and is refused, while the
  watch form returns it.
\<close>

theorem extractVideoId_leading_v:
  "extractVideoId ''https://youtu.be/v2AC41dglnM'' = None \<and>
   extractVideoId ''https://www.youtube.com/embed/v2AC41dglnM'' = None \<and>
   extractVideoId ''https://www.youtube.com/watch?v=v2AC41dglnM'' = Some ''v2AC41dglnM''"
  by code_simp

text \<open>Whatever the URL, a result has 11 characters.\<close>

theorem extractVideoId_eleven:
  "(case extractVideoId url of None \<Rightarrow> True | Some g \<Rightarrow> length g = 11)"
  by (auto simp: extractVideoId_def split: option.splits)

text \<open>
  For an identifier of 11 identifier characters that does not start with \<^verbatim>\<open>v\<close>, the
  three forms give the identifier, after any URL prefix without a line break.
\<close>

theorem extractVideoId_three_forms:
  assumes "length v = 11" and "list_all isIdChar v" and "hd v \<noteq> CHR ''v''"
    and "list_all (\<lambda>c. \<not> isLineTerminator c) p"
  shows "extractVideoId (p @ ''youtu.be/'' @ v) = Some v \<and>
         extractVideoId (p @ ''embed/'' @ v) = Some v \<and>
         extractVideoId (p @ ''watch?v='' @ v) = Some v"
proof -
  from assms(1) obtain x y r where v: "v = x # y # r"
    using length_11_Cons by blast
  with assms(3) have nv: "x \<noteq> CHR ''v''" by simp
  show ?thesis
    using extractVideoId_from_match [OF assms(4) short_link_match [OF assms(2) v nv] assms(1)]
      extractVideoId_from_match [OF assms(4) embed_match [OF assms(2) v nv] assms(1)]
      extractVideoId_from_match [OF assms(4) watch_match [OF assms(2) v] assms(1)]
    by simp
qed

theorem extractVideoId_three_forms_witness:
  "length ''dQw4w9WgXcQ'' = 11 \<and> list_all isIdChar ''dQw4w9WgXcQ'' \<and>
   hd ''dQw4w9WgXcQ'' \<noteq> CHR ''v'' \<and>
   list_all (\<lambda>c. \<not> isLineTerminator c) ''https://'' \<and>
   extractVideoId ''https://youtu.be/dQw4w9WgXcQ'' = Some ''dQw4w9WgXcQ'' \<and>
   extractVideoId ''https://embed/dQw4w9WgXcQ'' = Some ''dQw4w9WgXcQ'' \<and>
   extractVideoId ''https://watch?v=dQw4w9WgXcQ'' = Some ''dQw4w9WgXcQ''"
proof -
  have a: "length ''dQw4w9WgXcQ'' = 11" by simp
  have b: "list_all isIdChar ''dQw4w9WgXcQ''" by code_simp
  have c: "hd ''dQw4w9WgXcQ'' \<noteq> CHR ''v''" by simp
  have d: "list_all (\<lambda>c. \<not> isLineTerminator c) ''https://''" by code_simp
  from extractVideoId_three_forms [OF a b c d] a b c d show ?thesis by simp
qed

section \<open>Further properties\<close>

text \<open>The examples of time codes: two and three parts, the fallbacks to \<open>0\<close>, a part that is
  no number, and a part outside the numbers of the model.\<close>

lemma timeToSeconds_examples:
  "timeToSeconds ''0:00'' = Some (Fin 0) \<and> timeToSeconds '''' = Some (Fin 0) \<and>
   timeToSeconds ''1:02:03'' = Some (Fin 3723) \<and> timeToSeconds ''2:30'' = Some (Fin 150) \<and>
   timeToSeconds ''90'' = Some (Fin 0) \<and> timeToSeconds ''1:2:3:4'' = Some (Fin 0) \<and>
   timeToSeconds ''1:3s'' = Some NaN \<and> timeToSeconds ''1:30.5'' = None"
  by code_simp

text \<open>The size of a page of the feed, and the 25 clips in pages of 10.\<close>

lemma getClips_page_shape:
  "length (fp_clips (getClips verify authorization pageQ limitQ d)) =
     min (query_number limitQ 10)
         (length (Clips d) - (query_number pageQ 1 - 1) * query_number limitQ 10) \<and>
   fp_hasMore (getClips verify authorization pageQ limitQ d) =
     (query_number pageQ 1 * query_number limitQ 10 < length (Clips d)) \<and>
   fp_totalClips (getClips verify authorization pageQ limitQ d) = length (Clips d)"
  by (simp add: getClips_def Let_def)

lemma length_Clips_saveClip: "length (Clips (saveClip c d)) = Suc (length (Clips d))"
  by (simp add: saveClip_def)

lemma length_many_clips: "length (Clips (many_clips n)) = n"
  by (induction n) (simp_all add: many_clips_def empty_db_def length_Clips_saveClip)

theorem getClips_25_by_10:
  "map (\<lambda>p. length (fp_clips (getClips sample_verify None (Some p) (Some 10) (many_clips 25)))) [1, 2, 3]
     = [10, 10, 5] \<and>
   map (\<lambda>p. fp_hasMore (getClips sample_verify None (Some p) (Some 10) (many_clips 25))) [1, 2, 3]
     = [True, True, False]"
  by (simp add: getClips_page_shape length_many_clips query_number_def)

text \<open>A like toggle on a clip that does not exist is answered 404 and changes nothing.\<close>

lemma toggleLike_missing_clip:
  "Clip_findById (Some clipId) (Clips d) = None \<Longrightarrow>
   toggleLike refused now userId clipId d = (Inl (NotFound ''Clip not found''), d)"
  by (simp add: toggleLike_def)

end
